theory Spec2Isabelle
  imports Main
begin

section \<open>Values of the expression tree\<close>

text \<open>
  The values \<^verbatim>\<open>Expr.toString\<close> of \<^verbatim>\<open>src/Expr.js\<close> inspects. A plain object is the
  list of its own enumerable properties in the order of \<^verbatim>\<open>Object.keys\<close> (keys are
  distinct in JavaScript). \<open>JExpr raw\<close> is \<^verbatim>\<open>new Expr(raw)\<close>: an instance of \<^verbatim>\<open>Expr\<close>
  whose only own property is \<^verbatim>\<open>raw\<close>. \<open>JValue str v\<close> is an instance of a subclass of
  \<^verbatim>\<open>Expr\<close> that has the own property \<^verbatim>\<open>value\<close> (set to \<open>v\<close>) and whose
  \<^verbatim>\<open>toString()\<close> returns \<open>str\<close>; the subclasses live outside \<^verbatim>\<open>Expr.js\<close>, so the
  text they print is carried by the value.

  Numbers are the integers (printed in decimal, as \<^verbatim>\<open>String\<close> prints an integral
  double below \<open>10\<^sup>2\<^sup>1\<close>); strings are lists of 8-bit characters read as ASCII.
  Functions, bigints, sparse arrays and cyclic structures are not values of the model.
\<close>

datatype jsval =
    Undefined
  | Null
  | JString string
  | JBool bool
  | JNumber int
  | JSymbol string
  | JArray "jsval list"
  | JObject "(string \<times> jsval) list"
  | JExpr jsval
  | JValue string jsval

text \<open>\<^verbatim>\<open>function Expr(obj) { this.raw = obj }\<close> and \<^verbatim>\<open>Expr.prototype.toJSON\<close>, which
  returns \<^verbatim>\<open>this.raw\<close> (\<^verbatim>\<open>undefined\<close> on an instance that has no such property).\<close>

definition Expr :: "jsval \<Rightarrow> jsval" where
  "Expr obj = JExpr obj"

fun toJSON :: "jsval \<Rightarrow> jsval" where
  "toJSON (JExpr raw) = raw"
| "toJSON this = (case map_of (case this of JObject kvs \<Rightarrow> kvs | _ \<Rightarrow> []) ''raw'' of
      Some raw \<Rightarrow> raw | None \<Rightarrow> Undefined)"

section \<open>Name resolution\<close>

definition varArgsFunctions :: "string list" where
  "varArgsFunctions =
    [''Do'', ''Call'', ''Union'', ''Intersection'', ''Difference'', ''Equals'', ''Add'',
     ''BitAnd'', ''BitOr'', ''BitXor'', ''Divide'', ''Max'', ''Min'', ''Modulo'', ''Multiply'',
     ''Subtract'', ''LT'', ''LTE'', ''GT'', ''GTE'', ''And'', ''Or'']"

definition specialCases :: "(string \<times> string) list" where
  "specialCases =
    [(''is_nonempty'', ''IsNonEmpty''), (''lt'', ''LT''), (''lte'', ''LTE''),
     (''gt'', ''GT''), (''gte'', ''GTE'')]"

text \<open>
  \<^verbatim>\<open>specialCases\<close> is an object literal, so \<^verbatim>\<open>specialCases[key]\<close> also finds the
  properties every object inherits from \<^verbatim>\<open>Object.prototype\<close>. These are their names
  (ECMAScript, with the legacy accessors of Annex B that Node.js provides).
\<close>

definition objectPrototype :: "string list" where
  "objectPrototype =
    [''constructor'', ''__defineGetter__'', ''__defineSetter__'', ''hasOwnProperty'',
     ''__lookupGetter__'', ''__lookupSetter__'', ''isPrototypeOf'', ''propertyIsEnumerable'',
     ''toString'', ''valueOf'', ''__proto__'', ''toLocaleString'']"

text \<open>What \<^verbatim>\<open>fn\<close> holds: a string, or an object inherited from \<^verbatim>\<open>Object.prototype\<close>
  (named by the key that found it).\<close>

datatype fname = Name string | Inherited string

definition toUpperCase :: "char \<Rightarrow> char" where
  "toUpperCase c =
    (case map_of (zip ''abcdefghijklmnopqrstuvwxyz'' ''ABCDEFGHIJKLMNOPQRSTUVWXYZ'') c of
       Some u \<Rightarrow> u
     | None \<Rightarrow> c)"

text \<open>\<^verbatim>\<open>str.split('_')\<close>: the segments between the separators; never empty.\<close>

fun split :: "char \<Rightarrow> string \<Rightarrow> string list" where
  "split d [] = [[]]"
| "split d (c # cs) =
    (if c = d then [] # split d cs
     else (case split d cs of [] \<Rightarrow> [[c]] | seg # segs \<Rightarrow> (c # seg) # segs))"

text \<open>\<^verbatim>\<open>str.charAt(0).toUpperCase() + str.slice(1)\<close>\<close>

fun capitalize :: "string \<Rightarrow> string" where
  "capitalize [] = []"
| "capitalize (c # cs) = toUpperCase c # cs"

definition pascalCase :: "string \<Rightarrow> string" where
  "pascalCase key = concat (map capitalize (split (CHR ''_'') key))"

text \<open>\<^verbatim>\<open>specialCases[keys[0]] || keys[0].split('_').map(...).join('')\<close> for a key that
  is a string. Every value the lookup can find is truthy.\<close>

definition resolve :: "string \<Rightarrow> fname" where
  "resolve key =
    (case map_of specialCases key of
       Some name \<Rightarrow> Name name
     | None \<Rightarrow> if key \<in> set objectPrototype then Inherited key else Name (pascalCase key))"

text \<open>The string \<^verbatim>\<open>fn + '('\<close> starts with. An inherited function prints as Node.js
  prints a native function, the prototype object itself as \<^verbatim>\<open>[object Object]\<close>.\<close>

fun fn_text :: "fname \<Rightarrow> string" where
  "fn_text (Name name) = name"
| "fn_text (Inherited key) =
    (if key = ''__proto__'' then ''[object Object]''
     else ''function '' @ (if key = ''constructor'' then ''Object'' else key) @
          ''() { [native code] }'')"

definition shouldReverseArgs :: "fname \<Rightarrow> bool" where
  "shouldReverseArgs fn = (fn \<in> set (map Name [''Filter'', ''Map'', ''Foreach'']))"

section \<open>Scalars as text\<close>

fun digits :: "nat \<Rightarrow> string" where
  "digits n =
    (if n < 10 then [''0123456789'' ! n]
     else digits (n div 10) @ [''0123456789'' ! (n mod 10)])"

declare digits.simps [simp del]

text \<open>\<^verbatim>\<open>String(expr)\<close> for a number.\<close>

definition String_number :: "int \<Rightarrow> string" where
  "String_number n = (if n < 0 then ''-'' @ digits (nat (- n)) else digits (nat n))"

text \<open>\<^verbatim>\<open>JSON.stringify(expr)\<close> for a string: quoted, with the quote, the backslash and
  the control characters escaped.\<close>

definition escape :: "char \<Rightarrow> string" where
  "escape c =
    (let n = (of_char c :: nat) in
     if n = 0x22 then [CHR 0x5C, CHR 0x22]
     else if n = 0x5C then [CHR 0x5C, CHR 0x5C]
     else if n = 0x08 then [CHR 0x5C, CHR ''b'']
     else if n = 0x09 then [CHR 0x5C, CHR ''t'']
     else if n = 0x0A then [CHR 0x5C, CHR ''n'']
     else if n = 0x0C then [CHR 0x5C, CHR ''f'']
     else if n = 0x0D then [CHR 0x5C, CHR ''r'']
     else if n < 0x20 then
       [CHR 0x5C, CHR ''u'', CHR ''0'', CHR ''0'',
        ''0123456789abcdef'' ! (n div 16), ''0123456789abcdef'' ! (n mod 16)]
     else [c])"

definition JSON_stringify :: "string \<Rightarrow> string" where
  "JSON_stringify str = [CHR 0x22] @ concat (map escape str) @ [CHR 0x22]"

section \<open>The renderer's shared state\<close>

text \<open>The module variables \<^verbatim>\<open>keyPath\<close>, \<^verbatim>\<open>compact\<close> and \<^verbatim>\<open>printDepth\<close>. They start as
  \<^verbatim>\<open>[]\<close>, \<^verbatim>\<open>false\<close> and \<^verbatim>\<open>0\<close>; every function below takes the state and returns the
  state it leaves.\<close>

datatype pathkey = Idx nat | Key string

record rstate =
  keyPath :: "pathkey list"
  compact :: bool
  printDepth :: nat

definition initial :: rstate where
  "initial = \<lparr>keyPath = [], compact = False, printDepth = 0\<rparr>"

text \<open>A call either throws (the error, with the state the throw leaves behind) or
  returns (the value, with the state after the call).\<close>

datatype error = TypeError

type_synonym 'a res = "(error \<times> rstate) + ('a \<times> rstate)"

text \<open>\<^verbatim>\<open>indent(input)\<close> for a string: \<open>2 * printDepth\<close> characters, the marker
  U+30FB (here its three UTF-8 bytes) at the even positions and a blank at the odd ones.
  For a function argument \<^verbatim>\<open>indent\<close> raises the depth around the call; that is written
  out where it is used.\<close>

definition marker :: string where
  "marker = [CHR 0xE3, CHR 0x83, CHR 0xBB]"

definition indent :: "rstate \<Rightarrow> string \<Rightarrow> string" where
  "indent s input =
    (if compact s then input
     else concat (map (\<lambda>i. if i mod 2 \<noteq> 0 then '' '' else marker) [0..<2 * printDepth s])
          @ input)"

definition eol :: "rstate \<Rightarrow> string \<Rightarrow> string" where
  "eol s input = input @ (if compact s then [] else [CHR 0x0A])"

fun isCompact :: "jsval \<Rightarrow> bool" where
  "isCompact (JExpr raw) = False"
| "isCompact (JValue str v) = False"
| "isCompact expr = True"

section \<open>Options\<close>

text \<open>The second argument of \<^verbatim>\<open>Expr.toString\<close>: falsy, \<^verbatim>\<open>true\<close>, or an object with
  \<^verbatim>\<open>compact\<close> (its truthiness) and \<^verbatim>\<open>map\<close> (a function of the rendered text and the key
  path, when given). The hook is a pure function to a string.\<close>

datatype options =
    OptNone
  | OptTrue
  | OptObj bool "(string \<Rightarrow> pathkey list \<Rightarrow> string) option"

fun normalize_options :: "options \<Rightarrow> options" where
  "normalize_options OptNone = OptObj False None"
| "normalize_options OptTrue = OptObj True None"
| "normalize_options (OptObj c m) = OptObj c m"

fun options_compact :: "options \<Rightarrow> bool" where
  "options_compact (OptObj c m) = c"
| "options_compact opts = False"

fun options_map :: "options \<Rightarrow> string \<Rightarrow> pathkey list \<Rightarrow> string" where
  "options_map (OptObj c (Some f)) = f"
| "options_map opts = (\<lambda>str path. str)"

section \<open>The printer\<close>

text \<open>\<^verbatim>\<open>Object.keys(obj)\<close> paired with \<^verbatim>\<open>obj[key]\<close>, for a value that is not
  \<^verbatim>\<open>null\<close> or \<^verbatim>\<open>undefined\<close> (on those \<^verbatim>\<open>Object.keys\<close> throws).\<close>

fun entries :: "jsval \<Rightarrow> (string \<times> jsval) list" where
  "entries (JString str) = zip (map digits [0..<length str]) (map (\<lambda>c. JString [c]) str)"
| "entries (JArray xs) = zip (map digits [0..<length xs]) xs"
| "entries (JObject kvs) = kvs"
| "entries (JExpr raw) = [(''raw'', raw)]"
| "entries (JValue str v) = [(''value'', v)]"
| "entries obj = []"

text \<open>The first lines of \<^verbatim>\<open>exprToString\<close>: an instance of \<^verbatim>\<open>Expr\<close> with a
  \<^verbatim>\<open>value\<close> prints itself, any other instance is replaced by its \<^verbatim>\<open>raw\<close>.\<close>

datatype unwrapped = Opaque string | Raw jsval

fun unwrap :: "jsval \<Rightarrow> unwrapped" where
  "unwrap (JValue str v) = Opaque str"
| "unwrap (JExpr raw) = Raw raw"
| "unwrap expr = Raw expr"

text \<open>The \<^verbatim>\<open>toStr\<close> argument of \<^verbatim>\<open>printArray\<close>: the closure over \<^verbatim>\<open>exprToString\<close>, or
  \<^verbatim>\<open>printObject\<close>.\<close>

datatype toStr = ViaExprToString | ViaPrintObject

text \<open>The measure of the recursion: the sizes of the values an array or an
  object holds (a primitive string weighs as much as each of its characters).\<close>

definition weight :: "jsval list \<Rightarrow> nat" where
  "weight xs = sum_list (map size xs)"

definition weight_entries :: "(string \<times> jsval) list \<Rightarrow> nat" where
  "weight_entries kvs = weight (map snd kvs)"

lemma weight_simps [simp]:
  "weight [] = 0" "weight (v # vs) = size v + weight vs"
  "weight_entries [] = 0" "weight_entries ((k, v) # kvs) = size v + weight_entries kvs"
  by (simp_all add: weight_def weight_entries_def)

lemma weight_le_size_list: "weight xs \<le> size_list size xs"
  by (induction xs) auto

lemma weight_less_size: "weight xs < size (JArray xs)"
  by (induction xs) auto

lemma weight_entries_less_size: "weight_entries kvs < size (JObject kvs)"
  by (induction kvs) auto

lemma weight_entries_zip: "length ks = length vs \<Longrightarrow> weight_entries (zip ks vs) = weight vs"
  by (induction ks vs rule: list_induct2) auto

lemma weight_entries_le: "weight_entries (entries obj) \<le> size obj"
proof (cases obj)
  case (JString str)
  have "weight (map (\<lambda>c. JString [c]) str) = 0"
    by (induction str) auto
  then show ?thesis using JString by (simp add: weight_entries_zip)
next
  case (JArray xs)
  then show ?thesis using weight_less_size [of xs] by (simp add: weight_entries_zip)
next
  case (JObject kvs)
  then show ?thesis using weight_entries_less_size [of kvs] by simp
qed auto

lemma size_map_of: "map_of kvs k = Some v \<Longrightarrow> size v \<le> weight_entries kvs"
  by (induction kvs) (auto split: if_splits)

lemma unwrap_array_less: "unwrap e = Raw (JArray xs) \<Longrightarrow> weight xs < size e"
  using weight_less_size [of xs] by (cases e) auto

lemma unwrap_obj_less: "unwrap e = Raw (JObject kvs) \<Longrightarrow> weight_entries kvs < size e"
  using weight_entries_less_size [of kvs] by (cases e) auto

lemma unwrap_expr_less: "unwrap e = Raw (JExpr r) \<Longrightarrow> size r < size e"
  by (cases e) auto

lemma unwrap_value_less: "unwrap e = Raw (JValue d v) \<Longrightarrow> size v < size e"
  by (cases e) auto

lemma unwrap_entries_less:
  "unwrap e = Raw x \<Longrightarrow> x = JObject kvs \<or> x = JExpr r \<or> x = JValue d v \<Longrightarrow>
    weight_entries (entries x) < size e"
  using weight_entries_less_size [of kvs] by (cases e) auto

lemma unwrap_lookup_less:
  "unwrap e = Raw x \<Longrightarrow> x = JObject kvs \<or> x = JExpr r \<or> x = JValue d v \<Longrightarrow>
    map_of (entries x) k = Some obj \<Longrightarrow> size obj < size e"
  using unwrap_entries_less [of e x kvs r d v] size_map_of [of "entries x" k obj] by simp

lemma nat_less_or_eq:
  "((a::nat) < b \<or> a = b) = (a \<le> b)" "(0 < (c::nat) \<or> c = 0) = True"
  by auto

text \<open>
  \<^verbatim>\<open>exprToString(expr, options)\<close> with its inner functions \<^verbatim>\<open>printArray(array, toStr)\<close>
  and \<^verbatim>\<open>printObject(obj)\<close>. The three \<^verbatim>\<open>.map(function(value, i) ...)\<close> loops are
  \<open>printArray_map\<close>, \<open>printObject_map\<close> and \<open>args_map\<close> (the loop that builds
  \<^verbatim>\<open>args\<close>); \<open>i\<close> is the index of the first element left and \<open>len\<close> the length of
  the whole array. A throw ends every caller.
\<close>

function
  exprToString :: "options \<Rightarrow> jsval \<Rightarrow> rstate \<Rightarrow> string res" and
  printArray :: "options \<Rightarrow> toStr \<Rightarrow> jsval list \<Rightarrow> rstate \<Rightarrow> string res" and
  printArray_map ::
    "options \<Rightarrow> toStr \<Rightarrow> jsval list \<Rightarrow> nat \<Rightarrow> nat \<Rightarrow> rstate \<Rightarrow> string res" and
  printObject :: "options \<Rightarrow> jsval \<Rightarrow> rstate \<Rightarrow> string res" and
  printObject_map ::
    "options \<Rightarrow> (string \<times> jsval) list \<Rightarrow> nat \<Rightarrow> nat \<Rightarrow> rstate \<Rightarrow> string res" and
  args_map ::
    "options \<Rightarrow> fname \<Rightarrow> (string \<times> jsval) list \<Rightarrow> nat \<Rightarrow> nat \<Rightarrow> rstate
      \<Rightarrow> string list res"
where
  "exprToString options0 expr0 s =
    (case unwrap expr0 of
       Opaque str \<Rightarrow> Inr (str, s)
     | Raw expr \<Rightarrow>
        (case expr of
           Undefined \<Rightarrow> Inr (''undefined'', s)
         | Null \<Rightarrow> Inr (''null'', s)
         | JString str \<Rightarrow> Inr (JSON_stringify str, s)
         | JBool b \<Rightarrow> Inr (if b then ''true'' else ''false'', s)
         | JNumber n \<Rightarrow> Inr (String_number n, s)
         | JSymbol d \<Rightarrow> Inr (''Symbol('' @ d @ '')'', s)
         | JArray xs \<Rightarrow>
            (let options = normalize_options options0;
                 wasCompact = compact s;
                 s1 = (if \<not> wasCompact then s\<lparr>compact := list_all isCompact xs\<rparr> else s)
             in case printArray options ViaExprToString xs s1 of
                  Inl err \<Rightarrow> Inl err
                | Inr (out, s2) \<Rightarrow> Inr (out, s2\<lparr>compact := wasCompact\<rparr>))
         | _ \<Rightarrow>
            (let options = normalize_options options0 in
             case map_of (entries expr) ''object'' of
               Some obj \<Rightarrow> printObject options obj s
             | None \<Rightarrow>
                (case entries expr of
                   [] \<Rightarrow> Inl (TypeError, s)
                 | (key0, v0) # more_keys \<Rightarrow>
                    (let fn = resolve key0;
                         wasCompact = compact s;
                         s1 = (if \<not> wasCompact
                               then s\<lparr>compact := options_compact options \<or>
                                      list_all (\<lambda>(key, v). isCompact v) (entries expr)\<rparr>
                               else s)
                     in case args_map options fn (entries expr) 0 (length (entries expr))
                               (s1\<lparr>printDepth := printDepth s1 + 1\<rparr>) of
                          Inl err \<Rightarrow> Inl err
                        | Inr (args, s2) \<Rightarrow>
                           (let s3 = s2\<lparr>printDepth := printDepth s2 - 1\<rparr>;
                                args' = (if shouldReverseArgs fn then rev args else args);
                                out = eol s3 (fn_text fn @ ''('') @ concat args' @ indent s3 '')''
                            in Inr (out, s3\<lparr>compact := wasCompact\<rparr>)))))))"
| "printArray options toStr array s =
    (if array = [] then Inr (''[]'', s)
     else case printArray_map options toStr array 0 (length array)
                 (s\<lparr>printDepth := printDepth s + 1\<rparr>) of
            Inl err \<Rightarrow> Inl err
          | Inr (items, s2) \<Rightarrow>
             (let s3 = s2\<lparr>printDepth := printDepth s2 - 1\<rparr>
              in Inr (eol s ''['' @ items @ indent s3 '']'', s3)))"
| "printArray_map options toStr [] i len s = Inr ([], s)"
| "printArray_map options toStr (v # vs) i len s =
    (let s1 = s\<lparr>keyPath := keyPath s @ [Idx i]\<rparr>
     in case (case toStr of
                ViaExprToString \<Rightarrow> exprToString options v s1
              | ViaPrintObject \<Rightarrow> printObject options v s1) of
          Inl err \<Rightarrow> Inl err
        | Inr (str, s2) \<Rightarrow>
           (let val = options_map options str (keyPath s2);
                s3 = s2\<lparr>keyPath := butlast (keyPath s2)\<rparr>;
                item = indent s3 val @ (if compact s3 \<and> i = len - 1 then [] else eol s3 '','')
            in case printArray_map options toStr vs (i + 1) len s3 of
                 Inl err \<Rightarrow> Inl err
               | Inr (items, s4) \<Rightarrow> Inr (item @ items, s4)))"
| "printObject options obj s =
    (if obj = Undefined \<or> obj = Null then Inl (TypeError, s)
     else if entries obj = [] then Inr (''{}'', s)
     else case printObject_map options (entries obj) 0 (length (entries obj))
                 (s\<lparr>printDepth := printDepth s + 1\<rparr>) of
            Inl err \<Rightarrow> Inl err
          | Inr (items, s2) \<Rightarrow>
             (let s3 = s2\<lparr>printDepth := printDepth s2 - 1\<rparr>
              in Inr (eol s ''{'' @ items @ indent s3 ''}'', s3)))"
| "printObject_map options [] i len s = Inr ([], s)"
| "printObject_map options ((key, v) # kvs) i len s =
    (let s1 = s\<lparr>keyPath := keyPath s @ [Key key]\<rparr>
     in case exprToString options v s1 of
          Inl err \<Rightarrow> Inl err
        | Inr (str, s2) \<Rightarrow>
           (let val = options_map options str (keyPath s2);
                s3 = s2\<lparr>keyPath := butlast (keyPath s2)\<rparr>;
                item = indent s3 (key @ '':'' @ (if compact s3 then [] else '' '') @ val) @
                       (if compact s3 \<and> i = len - 1 then [] else eol s3 '','')
            in case printObject_map options kvs (i + 1) len s3 of
                 Inl err \<Rightarrow> Inl err
               | Inr (items, s4) \<Rightarrow> Inr (item @ items, s4)))"
| "args_map options fn [] i len s = Inr ([], s)"
| "args_map options fn ((key, arg) # kvs) i len s =
    (let s1 = s\<lparr>keyPath := keyPath s @ [Key key]\<rparr>
     in case (if fn = Name ''Let'' \<and> key = ''let''
              then (case arg of
                      JArray array \<Rightarrow> printArray options ViaPrintObject array s1
                    | _ \<Rightarrow> printObject options arg s1)
              else exprToString options arg s1) of
          Inl err \<Rightarrow> Inl err
        | Inr (str, s2) \<Rightarrow>
           (let val = options_map options str (keyPath s2);
                s3 = s2\<lparr>keyPath := butlast (keyPath s2)\<rparr>;
                item = indent s3 val @ (if compact s3 \<and> i = len - 1 then [] else eol s3 '','')
            in case args_map options fn kvs (i + 1) len s3 of
                 Inl err \<Rightarrow> Inl err
               | Inr (args, s4) \<Rightarrow> Inr (item # args, s4)))"
  by pat_completeness auto

termination
  apply (relation "measures [
    case_sum
      (case_sum (\<lambda>(opts, e, s). size e)
        (case_sum (\<lambda>(opts, t, xs, s). weight xs)
                  (\<lambda>(opts, t, xs, i, len, s). weight xs)))
      (case_sum (\<lambda>(opts, e, s). size e)
        (case_sum (\<lambda>(opts, kvs, i, len, s). weight_entries kvs)
                  (\<lambda>(opts, fn, kvs, i, len, s). weight_entries kvs))),
    case_sum
      (case_sum (\<lambda>_. 0) (case_sum (\<lambda>_. 4) (\<lambda>_. 3)))
      (case_sum (\<lambda>_. 2) (case_sum (\<lambda>_. 1) (\<lambda>_. 3))),
    case_sum
      (case_sum (\<lambda>_. 0)
        (case_sum (\<lambda>_. 0) (\<lambda>(opts, t, xs, i, len, s). length xs)))
      (case_sum (\<lambda>_. 0)
        (case_sum (\<lambda>(opts, kvs, i, len, s). length kvs)
                  (\<lambda>(opts, fn, kvs, i, len, s). length kvs)))]")
                      apply simp
                      apply (simp_all add: unwrap_array_less unwrap_entries_less
      unwrap_lookup_less weight_less_size)
                      apply (simp_all add: nat_less_or_eq weight_entries_le)
     apply (auto dest: unwrap_obj_less unwrap_expr_less unwrap_value_less
      simp: less_Suc_eq_le weight_le_size_list trans_le_add1)
  done

declare exprToString.simps [simp del]
declare printArray.simps [simp del]
declare printObject.simps [simp del]

text \<open>\<^verbatim>\<open>Expr.toString(expr, options)\<close> called from outside, on the state a finished
  or not yet started render leaves: the text, or the error thrown.\<close>

definition toString :: "jsval \<Rightarrow> options \<Rightarrow> error + string" where
  "toString expr options =
    (case exprToString options expr initial of
       Inl (err, s) \<Rightarrow> Inl err
     | Inr (out, s) \<Rightarrow> Inr out)"

section \<open>How \<open>exprToString\<close> unfolds\<close>

text \<open>The values \<^verbatim>\<open>exprToString\<close> treats as a record with keys once the scalars and
  the arrays are gone: a plain object, and an instance of \<^verbatim>\<open>Expr\<close> that was itself
  wrapped.\<close>

definition objlike :: "jsval \<Rightarrow> bool" where
  "objlike x = (case x of JObject kvs \<Rightarrow> True | JExpr r \<Rightarrow> True | JValue d v \<Rightarrow> True | _ \<Rightarrow> False)"

lemma decide_eq:
  "(if \<not> compact s then s\<lparr>compact := X\<rparr> else s) = s\<lparr>compact := compact s \<or> X\<rparr>"
  by (cases s) auto

lemma exprToString_array:
  "unwrap expr0 = Raw (JArray xs) \<Longrightarrow>
    exprToString options0 expr0 s =
      (case printArray (normalize_options options0) ViaExprToString xs
              (s\<lparr>compact := compact s \<or> list_all isCompact xs\<rparr>) of
         Inl err \<Rightarrow> Inl err
       | Inr (out, s2) \<Rightarrow> Inr (out, s2\<lparr>compact := compact s\<rparr>))"
  by (simp add: exprToString.simps decide_eq Let_def)

lemma exprToString_objlike:
  "unwrap expr0 = Raw expr \<Longrightarrow> objlike expr \<Longrightarrow>
    exprToString options0 expr0 s =
            (let options = normalize_options options0 in
             case map_of (entries expr) ''object'' of
               Some obj \<Rightarrow> printObject options obj s
             | None \<Rightarrow>
                (case entries expr of
                   [] \<Rightarrow> Inl (TypeError, s)
                 | (key0, v0) # more_keys \<Rightarrow>
                    (let fn = resolve key0;
                         wasCompact = compact s;
                         s1 = (if \<not> wasCompact
                               then s\<lparr>compact := options_compact options \<or>
                                      list_all (\<lambda>(key, v). isCompact v) (entries expr)\<rparr>
                               else s)
                     in case args_map options fn (entries expr) 0 (length (entries expr))
                               (s1\<lparr>printDepth := printDepth s1 + 1\<rparr>) of
                          Inl err \<Rightarrow> Inl err
                        | Inr (args, s2) \<Rightarrow>
                           (let s3 = s2\<lparr>printDepth := printDepth s2 - 1\<rparr>;
                                args' = (if shouldReverseArgs fn then rev args else args);
                                out = eol s3 (fn_text fn @ ''('') @ concat args' @ indent s3 '')''
                            in Inr (out, s3\<lparr>compact := wasCompact\<rparr>)))))"
  by (cases expr) (simp_all only: exprToString.simps objlike_def jsval.case unwrapped.case simp_thms)

lemma exprToString_object:
  "unwrap expr0 = Raw expr \<Longrightarrow> objlike expr \<Longrightarrow> map_of (entries expr) ''object'' = Some obj \<Longrightarrow>
    exprToString options0 expr0 s = printObject (normalize_options options0) obj s"
  by (simp add: exprToString_objlike)

lemma exprToString_no_keys:
  "unwrap expr0 = Raw expr \<Longrightarrow> objlike expr \<Longrightarrow> entries expr = [] \<Longrightarrow>
    exprToString options0 expr0 s = Inl (TypeError, s)"
  by (simp add: exprToString_objlike)

lemma exprToString_call:
  "unwrap expr0 = Raw expr \<Longrightarrow> objlike expr \<Longrightarrow> map_of (entries expr) ''object'' = None \<Longrightarrow>
   entries expr = (key0, v0) # more_keys \<Longrightarrow>
    exprToString options0 expr0 s =
      (case args_map (normalize_options options0) (resolve key0) (entries expr) 0
              (length (entries expr))
              (s\<lparr>compact := compact s \<or> options_compact (normalize_options options0) \<or>
                    list_all (\<lambda>(key, v). isCompact v) (entries expr),
                 printDepth := printDepth s + 1\<rparr>) of
         Inl err \<Rightarrow> Inl err
       | Inr (args, s2) \<Rightarrow>
          Inr (eol (s2\<lparr>printDepth := printDepth s2 - 1\<rparr>) (fn_text (resolve key0) @ ''('') @
               concat (if shouldReverseArgs (resolve key0) then rev args else args) @
               indent (s2\<lparr>printDepth := printDepth s2 - 1\<rparr>) '')'',
               s2\<lparr>printDepth := printDepth s2 - 1, compact := compact s\<rparr>))"
  by (simp add: exprToString_objlike decide_eq Let_def del: args_map.simps split: sum.splits)


lemma restore_call:
  assumes raw: "unwrap expr0 = Raw expr" and obj: "objlike expr"
    and H1: "\<And>obj out s'. map_of (entries expr) ''object'' = Some obj \<Longrightarrow>
        printObject (normalize_options options0) obj s = Inr (out, s') \<Longrightarrow> s' = s"
    and H2: "\<And>key0 v0 more_keys s1 outs s'. map_of (entries expr) ''object'' = None \<Longrightarrow>
        entries expr = (key0, v0) # more_keys \<Longrightarrow>
        s1 = (if \<not> compact s
              then s\<lparr>compact := options_compact (normalize_options options0) \<or>
                     list_all (\<lambda>(key, v). isCompact v) (entries expr)\<rparr>
              else s) \<Longrightarrow>
        args_map (normalize_options options0) (resolve key0) (entries expr) 0
          (length (entries expr)) (s1\<lparr>printDepth := printDepth s1 + 1\<rparr>) = Inr (outs, s') \<Longrightarrow>
        s' = s1\<lparr>printDepth := printDepth s1 + 1\<rparr>"
    and run: "exprToString options0 expr0 s = Inr (out, s')"
  shows "s' = s"
proof (cases "map_of (entries expr) ''object''")
  case (Some obj)
  with run H1 raw obj show ?thesis by (simp add: exprToString_object)
next
  case None
  show ?thesis
  proof (cases "entries expr")
    case Nil
    with run raw obj show ?thesis by (simp add: exprToString_no_keys)
  next
    case (Cons kv more_keys)
    obtain key0 v0 where kv: "kv = (key0, v0)" by (cases kv)
    let ?s1 = "s\<lparr>compact := compact s \<or> options_compact (normalize_options options0) \<or>
                    list_all (\<lambda>(key, v). isCompact v) (entries expr),
                 printDepth := printDepth s + 1\<rparr>"
    from run obtain args s2 where
      a: "args_map (normalize_options options0) (resolve key0) (entries expr) 0
              (length (entries expr)) ?s1 = Inr (args, s2)"
      and s': "s' = s2\<lparr>printDepth := printDepth s2 - 1, compact := compact s\<rparr>"
      unfolding exprToString_call [OF raw obj None Cons [unfolded kv]]
      by (auto split: sum.splits)
    from H2 [OF None Cons [unfolded kv] refl, unfolded decide_eq] a s' show ?thesis by simp
  qed
qed

section \<open>The state after a render\<close>

text \<open>Every function of the printer that returns leaves the state it was called in:
  each push on \<^verbatim>\<open>keyPath\<close> is popped, each increment of \<^verbatim>\<open>printDepth\<close> is undone
  and \<^verbatim>\<open>compact\<close> is set back to \<^verbatim>\<open>wasCompact\<close>.\<close>

lemma restore:
  "exprToString options0 expr0 s = Inr (out, s') \<Longrightarrow> s' = s"
  "printArray options toStr array s = Inr (out, s') \<Longrightarrow> s' = s"
  "printArray_map options toStr vs i len s = Inr (out, s') \<Longrightarrow> s' = s"
  "printObject options obj s = Inr (out, s') \<Longrightarrow> s' = s"
  "printObject_map options kvs i len s = Inr (out, s') \<Longrightarrow> s' = s"
  "args_map options fn kvs i len s = Inr (outs, s') \<Longrightarrow> s' = s"
proof (induction options0 expr0 s and options toStr array s and options toStr vs i len s
    and options obj s and options kvs i len s and options fn kvs i len s
    arbitrary: out s' and out s' and out s' and out s' and out s' and outs s'
    rule: exprToString_printArray_printArray_map_printObject_printObject_map_args_map.induct)
  case (1 options0 expr0 s)
  note run = \<open>exprToString options0 expr0 s = Inr (out, s')\<close>
  show ?case
  proof (cases "unwrap expr0")
    case (Opaque str)
    with run show ?thesis by (simp add: exprToString.simps)
  next
    case (Raw expr)
    show ?thesis
    proof (cases expr)
      case (JArray xs)
      from run obtain s2 where
        a: "printArray (normalize_options options0) ViaExprToString xs
              (s\<lparr>compact := compact s \<or> list_all isCompact xs\<rparr>) = Inr (out, s2)"
        and s': "s' = s2\<lparr>compact := compact s\<rparr>"
        unfolding exprToString_array [OF Raw [unfolded JArray]]
        by (auto split: sum.splits)
      from "1.IH"(1) [OF Raw JArray refl refl refl, unfolded decide_eq, OF a] s'
      show ?thesis by simp
    next
      case (JObject kvs)
      have ol: "objlike expr" by (simp add: JObject objlike_def)
      have H1: "s' = s" if "map_of (entries expr) ''object'' = Some obj"
          "printObject (normalize_options options0) obj s = Inr (out, s')" for obj out s'
        using that by (rule "1.IH"(3) [OF Raw JObject refl])
      have H2: "s' = s1\<lparr>printDepth := printDepth s1 + 1\<rparr>"
        if "map_of (entries expr) ''object'' = None"
            "entries expr = (key0, v0) # more_keys"
            "s1 = (if \<not> compact s
              then s\<lparr>compact := options_compact (normalize_options options0) \<or>
                     list_all (\<lambda>(key, v). isCompact v) (entries expr)\<rparr>
              else s)"
            "args_map (normalize_options options0) (resolve key0) (entries expr) 0
            (length (entries expr)) (s1\<lparr>printDepth := printDepth s1 + 1\<rparr>) = Inr (outs, s')"
        for key0 v0 more_keys s1 outs s'
        by (rule "1.IH"(2) [OF Raw JObject refl that(1,2) refl refl refl that(3,4)])
      show ?thesis
        by (rule restore_call [OF Raw ol H1 H2 run])
    next
      case (JExpr r)
      have ol: "objlike expr" by (simp add: JExpr objlike_def)
      have H1: "s' = s" if "map_of (entries expr) ''object'' = Some obj"
          "printObject (normalize_options options0) obj s = Inr (out, s')" for obj out s'
        using that by (rule "1.IH"(5) [OF Raw JExpr refl])
      have H2: "s' = s1\<lparr>printDepth := printDepth s1 + 1\<rparr>"
        if "map_of (entries expr) ''object'' = None"
            "entries expr = (key0, v0) # more_keys"
            "s1 = (if \<not> compact s
              then s\<lparr>compact := options_compact (normalize_options options0) \<or>
                     list_all (\<lambda>(key, v). isCompact v) (entries expr)\<rparr>
              else s)"
            "args_map (normalize_options options0) (resolve key0) (entries expr) 0
            (length (entries expr)) (s1\<lparr>printDepth := printDepth s1 + 1\<rparr>) = Inr (outs, s')"
        for key0 v0 more_keys s1 outs s'
        by (rule "1.IH"(4) [OF Raw JExpr refl that(1,2) refl refl refl that(3,4)])
      show ?thesis
        by (rule restore_call [OF Raw ol H1 H2 run])
    next
      case (JValue d v)
      have ol: "objlike expr" by (simp add: JValue objlike_def)
      have H1: "s' = s" if "map_of (entries expr) ''object'' = Some obj"
          "printObject (normalize_options options0) obj s = Inr (out, s')" for obj out s'
        using that by (rule "1.IH"(7) [OF Raw JValue refl])
      have H2: "s' = s1\<lparr>printDepth := printDepth s1 + 1\<rparr>"
        if "map_of (entries expr) ''object'' = None"
            "entries expr = (key0, v0) # more_keys"
            "s1 = (if \<not> compact s
              then s\<lparr>compact := options_compact (normalize_options options0) \<or>
                     list_all (\<lambda>(key, v). isCompact v) (entries expr)\<rparr>
              else s)"
            "args_map (normalize_options options0) (resolve key0) (entries expr) 0
            (length (entries expr)) (s1\<lparr>printDepth := printDepth s1 + 1\<rparr>) = Inr (outs, s')"
        for key0 v0 more_keys s1 outs s'
        by (rule "1.IH"(6) [OF Raw JValue refl that(1,2) refl refl refl that(3,4)])
      show ?thesis
        by (rule restore_call [OF Raw ol H1 H2 run])
    qed (use run Raw in \<open>simp_all add: exprToString.simps\<close>)
  qed
next
  case (2 options toStr array s)
  show ?case
  proof (cases "array = []")
    case True
    with 2(2) show ?thesis by (simp add: printArray.simps)
  next
    case False
    with 2(2) obtain items s2 where
      m: "printArray_map options toStr array 0 (length array) (s\<lparr>printDepth := printDepth s + 1\<rparr>) = Inr (items, s2)"
      and s': "s' = s2\<lparr>printDepth := printDepth s2 - 1\<rparr>"
      by (auto simp add: printArray.simps Let_def split: sum.splits prod.splits)
    from 2(1) [OF False m] s' show ?thesis by simp
  qed
next
  case (3 options toStr i len s)
  then show ?case by simp
next
  case (4 options toStr v vs i len s)
  let ?s1 = "s\<lparr>keyPath := keyPath s @ [Idx i]\<rparr>"
  from 4(4) obtain str s2 items where
    a: "(case toStr of ViaExprToString \<Rightarrow> exprToString options v ?s1
          | ViaPrintObject \<Rightarrow> printObject options v ?s1) = Inr (str, s2)"
    and b: "printArray_map options toStr vs (i + 1) len (s2\<lparr>keyPath := butlast (keyPath s2)\<rparr>) = Inr (items, s')"
    by (auto simp add: Let_def split: sum.splits prod.splits)
  have "s2 = ?s1"
    using a 4(1,2) by (cases toStr) auto
  then have s3: "s2\<lparr>keyPath := butlast (keyPath s2)\<rparr> = s" by simp
  show ?case 
    using 4(3) [OF refl a refl refl refl refl b] s3 by simp
next
  case (5 options obj s)
  show ?case
  proof (cases "obj = Undefined \<or> obj = Null \<or> entries obj = []")
    case True
    with 5(2) show ?thesis by (auto simp add: printObject.simps split: if_splits)
  next
    case False
    with 5(2) obtain items s2 where
      m: "printObject_map options (entries obj) 0 (length (entries obj)) (s\<lparr>printDepth := printDepth s + 1\<rparr>) = Inr (items, s2)"
      and s': "s' = s2\<lparr>printDepth := printDepth s2 - 1\<rparr>"
      by (auto simp add: printObject.simps Let_def split: sum.splits prod.splits)
    from 5(1) [OF _ _ m] False s' show ?thesis by simp
  qed
next
  case (6 options i len s)
  then show ?case by simp
next
  case (7 options key v kvs i len s)
  let ?s1 = "s\<lparr>keyPath := keyPath s @ [Key key]\<rparr>"
  from 7(3) obtain str s2 items where
    a: "exprToString options v ?s1 = Inr (str, s2)"
    and b: "printObject_map options kvs (i + 1) len (s2\<lparr>keyPath := butlast (keyPath s2)\<rparr>) = Inr (items, s')"
    by (auto simp add: Let_def split: sum.splits prod.splits)
  have "s2 = ?s1"
    using a 7(1) by auto
  then have s3: "s2\<lparr>keyPath := butlast (keyPath s2)\<rparr> = s" by simp
  show ?case 
    using 7(2) [OF refl a refl refl refl refl b] s3 by simp
next
  case (8 options fn i len s)
  then show ?case by simp
next
  case (9 options fn key arg kvs i len s)
  let ?s1 = "s\<lparr>keyPath := keyPath s @ [Key key]\<rparr>"
  let ?r = "if fn = Name ''Let'' \<and> key = ''let''
              then (case arg of
                      JArray array \<Rightarrow> printArray options ViaPrintObject array ?s1
                    | _ \<Rightarrow> printObject options arg ?s1)
              else exprToString options arg ?s1"
  note run = \<open>args_map options fn ((key, arg) # kvs) i len s = Inr (outs, s')\<close>
  from run obtain str s2 items where
    a: "?r = Inr (str, s2)"
    and b: "args_map options fn kvs (i + 1) len (s2\<lparr>keyPath := butlast (keyPath s2)\<rparr>) = Inr (items, s')"
    by (simp add: Let_def split: sum.splits prod.splits)
  have "s2 = ?s1"
  proof (cases "fn = Name ''Let'' \<and> key = ''let''")
    case False
    with a have "exprToString options arg ?s1 = Inr (str, s2)" by simp
    then show ?thesis by (rule "9.IH"(11) [OF refl False])
  next
    case True
    show ?thesis
    proof (cases arg)
      case (JArray xs)
      with True a have "printArray options ViaPrintObject xs ?s1 = Inr (str, s2)" by simp
      then show ?thesis by (rule "9.IH"(7) [OF refl True JArray])
    qed (use True a "9.IH"(1-6,8-10) [OF refl True] in simp_all)
  qed
  then have s3: "s2\<lparr>keyPath := butlast (keyPath s2)\<rparr> = s" by simp
  show ?case
    using "9.IH"(12) [OF refl a refl refl refl refl b] s3 by simp
qed

section \<open>The arguments of a call, one by one\<close>

text \<open>The text of one argument of a call, before the \<^verbatim>\<open>map\<close> hook: the first
  argument of \<^verbatim>\<open>map(...)\<close> in the loop that builds \<^verbatim>\<open>args\<close>.\<close>

definition arg_text :: "options \<Rightarrow> fname \<Rightarrow> string \<Rightarrow> jsval \<Rightarrow> rstate \<Rightarrow> string res" where
  "arg_text options fn key arg s1 =
    (if fn = Name ''Let'' \<and> key = ''let''
     then (case arg of
             JArray array \<Rightarrow> printArray options ViaPrintObject array s1
           | _ \<Rightarrow> printObject options arg s1)
     else exprToString options arg s1)"

lemma arg_text_restore:
  assumes "arg_text options fn key arg s1 = Inr (str, s2)"
  shows "s2 = s1"
proof (cases "fn = Name ''Let'' \<and> key = ''let''")
  case False
  with assms show ?thesis by (simp add: arg_text_def restore(1))
next
  case True
  with assms show ?thesis
    by (cases arg) (auto simp: arg_text_def dest: restore(2) restore(4))
qed

lemma args_map_Cons:
  assumes "args_map options fn ((key, arg) # kvs) i len s = Inr (args, s')"
  shows "\<exists>str rest.
      arg_text options fn key arg (s\<lparr>keyPath := keyPath s @ [Key key]\<rparr>)
        = Inr (str, s\<lparr>keyPath := keyPath s @ [Key key]\<rparr>)
      \<and> args_map options fn kvs (i + 1) len s = Inr (rest, s)
      \<and> args = (indent s (options_map options str (keyPath s @ [Key key])) @
                (if compact s \<and> i = len - 1 then [] else eol s '','')) # rest
      \<and> s' = s"
proof -
  let ?s1 = "s\<lparr>keyPath := keyPath s @ [Key key]\<rparr>"
  from assms obtain str s2 rest where
    a: "arg_text options fn key arg ?s1 = Inr (str, s2)"
    and b: "args_map options fn kvs (i + 1) len (s2\<lparr>keyPath := butlast (keyPath s2)\<rparr>) = Inr (rest, s')"
    and c: "args = (indent (s2\<lparr>keyPath := butlast (keyPath s2)\<rparr>) (options_map options str (keyPath s2)) @
                (if compact (s2\<lparr>keyPath := butlast (keyPath s2)\<rparr>) \<and> i = len - 1 then []
                 else eol (s2\<lparr>keyPath := butlast (keyPath s2)\<rparr>) '','')) # rest"
    by (simp add: Let_def arg_text_def [symmetric] split: sum.splits prod.splits)
  have s2: "s2 = ?s1" using a by (rule arg_text_restore)
  then have s3: "s2\<lparr>keyPath := butlast (keyPath s2)\<rparr> = s" by simp
  from b s3 have s': "s' = s" by (simp add: restore(6))
  show ?thesis using a b c s2 s3 s' by auto
qed



section \<open>The elements of an array, one by one\<close>











section \<open>Evaluating the printer on concrete trees\<close>

lemmas render_defs =
  toString_def initial_def exprToString.simps printArray.simps printObject.simps
  resolve_def specialCases_def objectPrototype_def pascalCase_def toUpperCase_def
  shouldReverseArgs_def indent_def eol_def String_number_def digits.simps
  JSON_stringify_def escape_def marker_def

lemma upt_numeral_unfold:
  "[0..<2] = [0, 1]" "[0..<4] = [0, 1, 2, 3]" "[0..<6] = [0, 1, 2, 3, 4, 5]"
  by (simp_all add: upt_rec)

section \<open>The wrapper\<close>

text \<open>Claim C10. For every object \<open>obj\<close>, \<^verbatim>\<open>(new Expr(obj)).toJSON()\<close> returns exactly
  \<open>obj\<close>.\<close>

theorem toJSON_Expr: "toJSON (Expr obj) = obj"
  by (simp add: Expr_def)

section \<open>No leakage of the shared state\<close>

text \<open>Claim C8. A render that completes leaves \<^verbatim>\<open>keyPath\<close>, \<^verbatim>\<open>compact\<close> and
  \<^verbatim>\<open>printDepth\<close> exactly as it found them, so rendering the same tree again with the
  same options, from the state the first render left, gives the same text. (The tree is
  a value: no function of the printer returns a changed tree, as no line of the source
  assigns to a property of \<^verbatim>\<open>expr\<close>.)\<close>

theorem render_restores_state:
  assumes "exprToString options expr s = Inr (out, s')"
  shows "s' = s \<and> exprToString options expr s' = Inr (out, s')"
  using assms restore(1) [OF assms] by simp

theorem render_restores_state_witness:
  "exprToString OptNone (JExpr (JObject [(''add'', JExpr (JArray [JNumber 1, JNumber 2]))])) initial
     = Inr (''Add(\<newline>'' @ marker @ '' [1,2],\<newline>)'', initial)
   \<and> initial = initial
   \<and> exprToString OptNone (JExpr (JObject [(''add'', JExpr (JArray [JNumber 1, JNumber 2]))])) initial
     = Inr (''Add(\<newline>'' @ marker @ '' [1,2],\<newline>)'', initial)"
proof -
  have h: "exprToString OptNone
      (JExpr (JObject [(''add'', JExpr (JArray [JNumber 1, JNumber 2]))])) initial
     = Inr (''Add(\<newline>'' @ marker @ '' [1,2],\<newline>)'', initial)"
    by (simp add: render_defs upt_numeral_unfold)
  from render_restores_state [OF h] h show ?thesis by simp
qed

section \<open>Which trees render\<close>

lemma size_le_weight: "x \<in> set xs \<Longrightarrow> size x \<le> weight xs"
  by (induction xs) auto

lemma size_le_weight_entries: "(k, v) \<in> set kvs \<Longrightarrow> size v \<le> weight_entries kvs"
  by (induction kvs) auto

lemma unwrap_elem_less: "unwrap e = Raw (JArray xs) \<Longrightarrow> x \<in> set xs \<Longrightarrow> size x < size e"
  using unwrap_array_less [of e xs] size_le_weight [of x xs] by simp

lemma unwrap_field_less:
  "unwrap e = Raw (JObject kvs) \<Longrightarrow> (k, v) \<in> set kvs \<Longrightarrow> size v < size e"
  using unwrap_obj_less [of e kvs] size_le_weight_entries [of k v kvs] by simp

lemma unwrap_field_elem_less:
  "unwrap e = Raw (JObject kvs) \<Longrightarrow> (k, JArray xs) \<in> set kvs \<Longrightarrow> x \<in> set xs \<Longrightarrow>
    size x < size e"
  using unwrap_field_less [of e kvs k "JArray xs"] size_le_weight [of x xs]
    weight_less_size [of xs] by simp

lemma unwrap_object_key_less:
  "unwrap e = Raw (JObject kvs) \<Longrightarrow> map_of kvs k = Some obj \<Longrightarrow> size obj < size e"
  using unwrap_obj_less [of e kvs] size_map_of [of kvs k obj] by simp

lemma entries_value_le: "(k, v) \<in> set (entries obj) \<Longrightarrow> size v \<le> size obj"
  using size_le_weight_entries [of k v "entries obj"] weight_entries_le [of obj] by simp

text \<open>The trees on which no line of the printer throws. There are two such lines:
  \<^verbatim>\<open>keys[0].split('_')\<close> in \<^verbatim>\<open>exprToString\<close>, on a record with no own key, and
  \<^verbatim>\<open>Object.keys(obj)\<close> in \<^verbatim>\<open>printObject\<close>, on \<^verbatim>\<open>null\<close> or \<^verbatim>\<open>undefined\<close>. \<open>printable\<close>
  follows the calls of \<^verbatim>\<open>exprToString\<close> and \<open>printable_object\<close> those of \<^verbatim>\<open>printObject\<close>.\<close>

function printable :: "jsval \<Rightarrow> bool" and printable_object :: "jsval \<Rightarrow> bool" where
  "printable expr0 =
    (case unwrap expr0 of
       Opaque str \<Rightarrow> True
     | Raw expr \<Rightarrow>
        (case expr of
           JArray xs \<Rightarrow> list_all printable xs
         | JObject kvs \<Rightarrow>
            (case map_of kvs ''object'' of
               Some obj \<Rightarrow> printable_object obj
             | None \<Rightarrow>
                kvs \<noteq> [] \<and>
                list_all (\<lambda>(key, arg).
                    if resolve (fst (hd kvs)) = Name ''Let'' \<and> key = ''let''
                    then (case arg of
                            JArray array \<Rightarrow> list_all printable_object array
                          | _ \<Rightarrow> printable_object arg)
                    else printable arg) kvs)
         | JExpr raw \<Rightarrow> printable raw
         | JValue str v \<Rightarrow> printable v
         | _ \<Rightarrow> True))"
| "printable_object obj =
    (obj \<noteq> Undefined \<and> obj \<noteq> Null \<and> list_all (\<lambda>(key, v). printable v) (entries obj))"
  by pat_completeness auto
termination
  apply (relation "measures [case_sum size size, case_sum (\<lambda>_. 0) (\<lambda>_. 1)]")
   apply simp
  apply (auto simp: unwrap_expr_less unwrap_value_less
      intro: unwrap_elem_less unwrap_field_less unwrap_field_elem_less unwrap_object_key_less
      dest: entries_value_le unwrap_field_less)
  done

declare printable.simps [simp del]
declare printable_object.simps [simp del]

text \<open>The same for one element handed to \<^verbatim>\<open>toStr\<close> and for one argument of a call.\<close>

definition elem_ok :: "toStr \<Rightarrow> jsval \<Rightarrow> bool" where
  "elem_ok toStr v =
    (case toStr of ViaExprToString \<Rightarrow> printable v | ViaPrintObject \<Rightarrow> printable_object v)"

definition arg_ok :: "fname \<Rightarrow> string \<Rightarrow> jsval \<Rightarrow> bool" where
  "arg_ok fn key arg =
    (if fn = Name ''Let'' \<and> key = ''let''
     then (case arg of
             JArray array \<Rightarrow> list_all printable_object array
           | _ \<Rightarrow> printable_object arg)
     else printable arg)"

lemma printable_array:
  "unwrap expr0 = Raw (JArray xs) \<Longrightarrow> printable expr0 = list_all printable xs"
  by (simp add: printable.simps)

lemma printable_objlike:
  assumes "unwrap expr0 = Raw expr" "objlike expr"
  shows "printable expr0 =
    (case map_of (entries expr) ''object'' of
       Some obj \<Rightarrow> printable_object obj
     | None \<Rightarrow> entries expr \<noteq> [] \<and>
         list_all (\<lambda>(key, arg). arg_ok (resolve (fst (hd (entries expr)))) key arg)
           (entries expr))"
proof (cases expr)
  case (JObject kvs)
  with assms show ?thesis
    by (simp add: printable.simps arg_ok_def cong: option.case_cong)
next
  case (JExpr raw)
  with assms show ?thesis
    by (simp add: printable.simps arg_ok_def resolve_def specialCases_def objectPrototype_def
        pascalCase_def toUpperCase_def)
next
  case (JValue str v)
  with assms show ?thesis
    by (simp add: printable.simps arg_ok_def resolve_def specialCases_def objectPrototype_def
        pascalCase_def toUpperCase_def)
qed (use assms in \<open>simp_all add: objlike_def\<close>)


lemma elem_ok_simps:
  "elem_ok ViaExprToString = printable"
  "elem_ok ViaPrintObject = printable_object"
  by (rule ext, simp add: elem_ok_def)+

text \<open>On a printable tree every function of the printer returns, in the state it was
  called in.\<close>

lemma renders_call:
  assumes raw: "unwrap expr0 = Raw expr" and obj: "objlike expr"
    and ok: "printable expr0"
    and H1: "\<And>obj. map_of (entries expr) ''object'' = Some obj \<Longrightarrow> printable_object obj \<Longrightarrow>
        \<exists>out. printObject (normalize_options options0) obj s = Inr (out, s)"
    and H2: "\<And>key0 v0 more_keys s1. map_of (entries expr) ''object'' = None \<Longrightarrow>
        entries expr = (key0, v0) # more_keys \<Longrightarrow>
        s1 = (if \<not> compact s
              then s\<lparr>compact := options_compact (normalize_options options0) \<or>
                     list_all (\<lambda>(key, v). isCompact v) (entries expr)\<rparr>
              else s) \<Longrightarrow>
        list_all (\<lambda>(key, arg). arg_ok (resolve key0) key arg) (entries expr) \<Longrightarrow>
        \<exists>outs. args_map (normalize_options options0) (resolve key0) (entries expr) 0
          (length (entries expr)) (s1\<lparr>printDepth := printDepth s1 + 1\<rparr>)
            = Inr (outs, s1\<lparr>printDepth := printDepth s1 + 1\<rparr>)"
  shows "\<exists>out. exprToString options0 expr0 s = Inr (out, s)"
proof (cases "map_of (entries expr) ''object''")
  case (Some obj)
  with ok have "printable_object obj" by (simp add: printable_objlike [OF raw obj])
  from H1 [OF Some this] show ?thesis by (simp add: exprToString_object [OF raw obj Some])
next
  case None
  with ok have ne: "entries expr \<noteq> []"
    and args: "list_all (\<lambda>(key, arg). arg_ok (resolve (fst (hd (entries expr)))) key arg)
           (entries expr)"
    by (simp_all add: printable_objlike [OF raw obj])
  from ne obtain key0 v0 more_keys where ents: "entries expr = (key0, v0) # more_keys"
    by (cases "entries expr") auto
  from args ents have args': "list_all (\<lambda>(key, arg). arg_ok (resolve key0) key arg) (entries expr)"
    by simp
  from H2 [OF None ents refl args', unfolded decide_eq] obtain outs where
    a: "args_map (normalize_options options0) (resolve key0) (entries expr) 0
          (length (entries expr))
          (s\<lparr>compact := compact s \<or> options_compact (normalize_options options0) \<or>
                    list_all (\<lambda>(key, v). isCompact v) (entries expr),
             printDepth := printDepth s + 1\<rparr>)
        = Inr (outs, s\<lparr>compact := compact s \<or> options_compact (normalize_options options0) \<or>
                    list_all (\<lambda>(key, v). isCompact v) (entries expr),
             printDepth := printDepth s + 1\<rparr>)"
    by auto
  show ?thesis
    unfolding exprToString_call [OF raw obj None ents] a by simp
qed

lemma renders:
  "printable expr0 \<Longrightarrow> \<exists>out. exprToString options0 expr0 s = Inr (out, s)"
  "list_all (elem_ok toStr) array \<Longrightarrow> \<exists>out. printArray options toStr array s = Inr (out, s)"
  "list_all (elem_ok toStr) vs \<Longrightarrow> \<exists>out. printArray_map options toStr vs i len s = Inr (out, s)"
  "printable_object obj \<Longrightarrow> \<exists>out. printObject options obj s = Inr (out, s)"
  "list_all (\<lambda>(key, v). printable v) kvs \<Longrightarrow>
    \<exists>out. printObject_map options kvs i len s = Inr (out, s)"
  "list_all (\<lambda>(key, arg). arg_ok fn key arg) kvs \<Longrightarrow>
    \<exists>outs. args_map options fn kvs i len s = Inr (outs, s)"
proof (induction options0 expr0 s and options toStr array s and options toStr vs i len s
    and options obj s and options kvs i len s and options fn kvs i len s
    rule: exprToString_printArray_printArray_map_printObject_printObject_map_args_map.induct)
  case (1 options0 expr0 s)
  note ok = \<open>printable expr0\<close>
  show ?case
  proof (cases "unwrap expr0")
    case (Opaque str)
    then show ?thesis by (simp add: exprToString.simps)
  next
    case (Raw expr)
    show ?thesis
    proof (cases expr)
      case (JArray xs)
      from ok have "list_all (elem_ok ViaExprToString) xs"
        by (simp add: printable_array [OF Raw [unfolded JArray]] elem_ok_simps)
      from "1.IH"(1) [OF Raw JArray refl refl refl this, unfolded decide_eq]
      show ?thesis
        unfolding exprToString_array [OF Raw [unfolded JArray]] by auto
    next
      case (JObject kvs)
      have ol: "objlike expr" by (simp add: JObject objlike_def)
      have H1: "\<exists>out. printObject (normalize_options options0) obj s = Inr (out, s)"
        if "map_of (entries expr) ''object'' = Some obj" "printable_object obj" for obj
        using that by (rule "1.IH"(3) [OF Raw JObject refl])
      have H2: "\<exists>outs. args_map (normalize_options options0) (resolve key0) (entries expr) 0
            (length (entries expr)) (s1\<lparr>printDepth := printDepth s1 + 1\<rparr>)
            = Inr (outs, s1\<lparr>printDepth := printDepth s1 + 1\<rparr>)"
        if "map_of (entries expr) ''object'' = None"
            "entries expr = (key0, v0) # more_keys"
            "s1 = (if \<not> compact s
              then s\<lparr>compact := options_compact (normalize_options options0) \<or>
                     list_all (\<lambda>(key, v). isCompact v) (entries expr)\<rparr>
              else s)"
            "list_all (\<lambda>(key, arg). arg_ok (resolve key0) key arg) (entries expr)"
        for key0 v0 more_keys s1
        by (rule "1.IH"(2) [OF Raw JObject refl that(1,2) refl refl refl that(3,4)])
      show ?thesis
        by (rule renders_call [OF Raw ol ok H1 H2])
    next
      case (JExpr r)
      have ol: "objlike expr" by (simp add: JExpr objlike_def)
      have H1: "\<exists>out. printObject (normalize_options options0) obj s = Inr (out, s)"
        if "map_of (entries expr) ''object'' = Some obj" "printable_object obj" for obj
        using that by (rule "1.IH"(5) [OF Raw JExpr refl])
      have H2: "\<exists>outs. args_map (normalize_options options0) (resolve key0) (entries expr) 0
            (length (entries expr)) (s1\<lparr>printDepth := printDepth s1 + 1\<rparr>)
            = Inr (outs, s1\<lparr>printDepth := printDepth s1 + 1\<rparr>)"
        if "map_of (entries expr) ''object'' = None"
            "entries expr = (key0, v0) # more_keys"
            "s1 = (if \<not> compact s
              then s\<lparr>compact := options_compact (normalize_options options0) \<or>
                     list_all (\<lambda>(key, v). isCompact v) (entries expr)\<rparr>
              else s)"
            "list_all (\<lambda>(key, arg). arg_ok (resolve key0) key arg) (entries expr)"
        for key0 v0 more_keys s1
        by (rule "1.IH"(4) [OF Raw JExpr refl that(1,2) refl refl refl that(3,4)])
      show ?thesis
        by (rule renders_call [OF Raw ol ok H1 H2])
    next
      case (JValue d v)
      have ol: "objlike expr" by (simp add: JValue objlike_def)
      have H1: "\<exists>out. printObject (normalize_options options0) obj s = Inr (out, s)"
        if "map_of (entries expr) ''object'' = Some obj" "printable_object obj" for obj
        using that by (rule "1.IH"(7) [OF Raw JValue refl])
      have H2: "\<exists>outs. args_map (normalize_options options0) (resolve key0) (entries expr) 0
            (length (entries expr)) (s1\<lparr>printDepth := printDepth s1 + 1\<rparr>)
            = Inr (outs, s1\<lparr>printDepth := printDepth s1 + 1\<rparr>)"
        if "map_of (entries expr) ''object'' = None"
            "entries expr = (key0, v0) # more_keys"
            "s1 = (if \<not> compact s
              then s\<lparr>compact := options_compact (normalize_options options0) \<or>
                     list_all (\<lambda>(key, v). isCompact v) (entries expr)\<rparr>
              else s)"
            "list_all (\<lambda>(key, arg). arg_ok (resolve key0) key arg) (entries expr)"
        for key0 v0 more_keys s1
        by (rule "1.IH"(6) [OF Raw JValue refl that(1,2) refl refl refl that(3,4)])
      show ?thesis
        by (rule renders_call [OF Raw ol ok H1 H2])
    qed (use Raw in \<open>simp_all add: exprToString.simps\<close>)
  qed
next
  case (2 options toStr array s)
  show ?case
  proof (cases "array = []")
    case True
    then show ?thesis by (simp add: printArray.simps)
  next
    case False
    from "2.IH" [OF False "2.prems"] obtain items where
      "printArray_map options toStr array 0 (length array) (s\<lparr>printDepth := printDepth s + 1\<rparr>)
        = Inr (items, s\<lparr>printDepth := printDepth s + 1\<rparr>)"
      by blast
    with False show ?thesis by (simp add: printArray.simps)
  qed
next
  case (3 options toStr i len s)
  then show ?case by simp
next
  case (4 options toStr v vs i len s)
  let ?s1 = "s\<lparr>keyPath := keyPath s @ [Idx i]\<rparr>"
  from "4.prems" have okv: "elem_ok toStr v" and oks: "list_all (elem_ok toStr) vs" by simp_all
  have "\<exists>str. (case toStr of ViaExprToString \<Rightarrow> exprToString options v ?s1
          | ViaPrintObject \<Rightarrow> printObject options v ?s1) = Inr (str, ?s1)"
    using okv "4.IH"(1,2) by (cases toStr) (auto simp: elem_ok_def)
  then obtain str where
    a: "(case toStr of ViaExprToString \<Rightarrow> exprToString options v ?s1
          | ViaPrintObject \<Rightarrow> printObject options v ?s1) = Inr (str, ?s1)"
    by blast
  from "4.IH"(3) [OF refl a refl refl refl refl oks] obtain items where
    b: "printArray_map options toStr vs (i + 1) len (?s1\<lparr>keyPath := butlast (keyPath ?s1)\<rparr>)
        = Inr (items, ?s1\<lparr>keyPath := butlast (keyPath ?s1)\<rparr>)"
    by blast
  have s3: "?s1\<lparr>keyPath := butlast (keyPath ?s1)\<rparr> = s" by simp
  show ?case
    using a b unfolding s3 by (simp add: Let_def)
next
  case (5 options obj s)
  from "5.prems" have nn: "obj \<noteq> Undefined" "obj \<noteq> Null"
    and oks: "list_all (\<lambda>(key, v). printable v) (entries obj)"
    by (simp_all add: printable_object.simps)
  show ?case
  proof (cases "entries obj = []")
    case True
    with nn show ?thesis by (simp add: printObject.simps)
  next
    case False
    from "5.IH" [OF _ False oks] nn obtain items where
      "printObject_map options (entries obj) 0 (length (entries obj))
          (s\<lparr>printDepth := printDepth s + 1\<rparr>)
        = Inr (items, s\<lparr>printDepth := printDepth s + 1\<rparr>)"
      by blast
    with False nn show ?thesis by (simp add: printObject.simps)
  qed
next
  case (6 options i len s)
  then show ?case by simp
next
  case (7 options key v kvs i len s)
  let ?s1 = "s\<lparr>keyPath := keyPath s @ [Key key]\<rparr>"
  from "7.prems" have okv: "printable v" and oks: "list_all (\<lambda>(key, v). printable v) kvs"
    by simp_all
  from "7.IH"(1) [OF refl okv] obtain str where
    a: "exprToString options v ?s1 = Inr (str, ?s1)"
    by blast
  from "7.IH"(2) [OF refl a refl refl refl refl oks] obtain items where
    b: "printObject_map options kvs (i + 1) len (?s1\<lparr>keyPath := butlast (keyPath ?s1)\<rparr>)
        = Inr (items, ?s1\<lparr>keyPath := butlast (keyPath ?s1)\<rparr>)"
    by blast
  have s3: "?s1\<lparr>keyPath := butlast (keyPath ?s1)\<rparr> = s" by simp
  show ?case
    using a b unfolding s3 by (simp add: Let_def)
next
  case (8 options fn i len s)
  then show ?case by simp
next
  case (9 options fn key arg kvs i len s)
  let ?s1 = "s\<lparr>keyPath := keyPath s @ [Key key]\<rparr>"
  let ?r = "if fn = Name ''Let'' \<and> key = ''let''
              then (case arg of
                      JArray array \<Rightarrow> printArray options ViaPrintObject array ?s1
                    | _ \<Rightarrow> printObject options arg ?s1)
              else exprToString options arg ?s1"
  from "9.prems" have oka: "arg_ok fn key arg"
    and oks: "list_all (\<lambda>(key, arg). arg_ok fn key arg) kvs"
    by simp_all
  have "\<exists>str. ?r = Inr (str, ?s1)"
  proof (cases "fn = Name ''Let'' \<and> key = ''let''")
    case False
    with oka have "printable arg" by (auto simp: arg_ok_def)
    from "9.IH"(11) [OF refl False this] False show ?thesis by auto
  next
    case True
    show ?thesis
    proof (cases arg)
      case (JArray xs)
      with True oka have "list_all (elem_ok ViaPrintObject) xs"
        by (simp add: arg_ok_def elem_ok_simps)
      from "9.IH"(7) [OF refl True JArray this] True JArray show ?thesis by simp
    qed (use True oka "9.IH"(1-6,8-10) [OF refl True] in \<open>simp_all add: arg_ok_def\<close>)
  qed
  then obtain str where a: "?r = Inr (str, ?s1)" by blast
  from "9.IH"(12) [OF refl a refl refl refl refl oks] obtain items where
    b: "args_map options fn kvs (i + 1) len (?s1\<lparr>keyPath := butlast (keyPath ?s1)\<rparr>)
        = Inr (items, ?s1\<lparr>keyPath := butlast (keyPath ?s1)\<rparr>)"
    by blast
  have s3: "?s1\<lparr>keyPath := butlast (keyPath ?s1)\<rparr> = s" by simp
  show ?case
    using a b unfolding s3 by (simp add: Let_def)
qed


text \<open>A function of the printer that returns was called on a printable tree.\<close>

lemma renders_only_call:
  assumes raw: "unwrap expr0 = Raw expr" and obj: "objlike expr"
    and H1: "\<And>obj out s'. map_of (entries expr) ''object'' = Some obj \<Longrightarrow>
        printObject (normalize_options options0) obj s = Inr (out, s') \<Longrightarrow> printable_object obj"
    and H2: "\<And>key0 v0 more_keys s1 outs s'. map_of (entries expr) ''object'' = None \<Longrightarrow>
        entries expr = (key0, v0) # more_keys \<Longrightarrow>
        s1 = (if \<not> compact s
              then s\<lparr>compact := options_compact (normalize_options options0) \<or>
                     list_all (\<lambda>(key, v). isCompact v) (entries expr)\<rparr>
              else s) \<Longrightarrow>
        args_map (normalize_options options0) (resolve key0) (entries expr) 0
          (length (entries expr)) (s1\<lparr>printDepth := printDepth s1 + 1\<rparr>) = Inr (outs, s') \<Longrightarrow>
        list_all (\<lambda>(key, arg). arg_ok (resolve key0) key arg) (entries expr)"
    and run: "exprToString options0 expr0 s = Inr (out, s')"
  shows "printable expr0"
proof (cases "map_of (entries expr) ''object''")
  case (Some obj)
  from run have "printObject (normalize_options options0) obj s = Inr (out, s')"
    by (simp add: exprToString_object [OF raw obj Some])
  from H1 [OF Some this] Some show ?thesis by (simp add: printable_objlike [OF raw obj])
next
  case None
  show ?thesis
  proof (cases "entries expr")
    case Nil
    with run raw obj show ?thesis by (simp add: exprToString_no_keys)
  next
    case (Cons kv more_keys)
    obtain key0 v0 where kv: "kv = (key0, v0)" by (cases kv)
    let ?s1 = "s\<lparr>compact := compact s \<or> options_compact (normalize_options options0) \<or>
                    list_all (\<lambda>(key, v). isCompact v) (entries expr),
                 printDepth := printDepth s + 1\<rparr>"
    from run obtain args s2 where
      a: "args_map (normalize_options options0) (resolve key0) (entries expr) 0
              (length (entries expr)) ?s1 = Inr (args, s2)"
      unfolding exprToString_call [OF raw obj None Cons [unfolded kv]]
      by (auto split: sum.splits)
    have "list_all (\<lambda>(key, arg). arg_ok (resolve key0) key arg) (entries expr)"
      by (rule H2 [OF None Cons [unfolded kv] refl, unfolded decide_eq]) (use a in simp)
    with None Cons kv show ?thesis by (simp add: printable_objlike [OF raw obj])
  qed
qed

lemma renders_only:
  "exprToString options0 expr0 s = Inr (out, s') \<Longrightarrow> printable expr0"
  "printArray options toStr array s = Inr (out, s') \<Longrightarrow> list_all (elem_ok toStr) array"
  "printArray_map options toStr vs i len s = Inr (out, s') \<Longrightarrow> list_all (elem_ok toStr) vs"
  "printObject options obj s = Inr (out, s') \<Longrightarrow> printable_object obj"
  "printObject_map options kvs i len s = Inr (out, s') \<Longrightarrow> list_all (\<lambda>(key, v). printable v) kvs"
  "args_map options fn kvs i len s = Inr (outs, s') \<Longrightarrow>
    list_all (\<lambda>(key, arg). arg_ok fn key arg) kvs"
proof (induction options0 expr0 s and options toStr array s and options toStr vs i len s
    and options obj s and options kvs i len s and options fn kvs i len s
    arbitrary: out s' and out s' and out s' and out s' and out s' and outs s'
    rule: exprToString_printArray_printArray_map_printObject_printObject_map_args_map.induct)
  case (1 options0 expr0 s)
  note run = \<open>exprToString options0 expr0 s = Inr (out, s')\<close>
  show ?case
  proof (cases "unwrap expr0")
    case (Opaque str)
    then show ?thesis by (simp add: printable.simps)
  next
    case (Raw expr)
    show ?thesis
    proof (cases expr)
      case (JArray xs)
      from run obtain s2 where
        a: "printArray (normalize_options options0) ViaExprToString xs
              (s\<lparr>compact := compact s \<or> list_all isCompact xs\<rparr>) = Inr (out, s2)"
        unfolding exprToString_array [OF Raw [unfolded JArray]]
        by (auto split: sum.splits)
      from "1.IH"(1) [OF Raw JArray refl refl refl, unfolded decide_eq, OF a]
      show ?thesis by (simp add: printable_array [OF Raw [unfolded JArray]] elem_ok_simps)
    next
      case (JObject kvs)
      have ol: "objlike expr" by (simp add: JObject objlike_def)
      have H1: "printable_object obj" if "map_of (entries expr) ''object'' = Some obj"
          "printObject (normalize_options options0) obj s = Inr (out, s')" for obj out s'
        using that by (rule "1.IH"(3) [OF Raw JObject refl])
      have H2: "list_all (\<lambda>(key, arg). arg_ok (resolve key0) key arg) (entries expr)"
        if "map_of (entries expr) ''object'' = None"
            "entries expr = (key0, v0) # more_keys"
            "s1 = (if \<not> compact s
              then s\<lparr>compact := options_compact (normalize_options options0) \<or>
                     list_all (\<lambda>(key, v). isCompact v) (entries expr)\<rparr>
              else s)"
            "args_map (normalize_options options0) (resolve key0) (entries expr) 0
            (length (entries expr)) (s1\<lparr>printDepth := printDepth s1 + 1\<rparr>) = Inr (outs, s')"
        for key0 v0 more_keys s1 outs s'
        by (rule "1.IH"(2) [OF Raw JObject refl that(1,2) refl refl refl that(3,4)])
      show ?thesis
        by (rule renders_only_call [OF Raw ol H1 H2 run])
    next
      case (JExpr r)
      have ol: "objlike expr" by (simp add: JExpr objlike_def)
      have H1: "printable_object obj" if "map_of (entries expr) ''object'' = Some obj"
          "printObject (normalize_options options0) obj s = Inr (out, s')" for obj out s'
        using that by (rule "1.IH"(5) [OF Raw JExpr refl])
      have H2: "list_all (\<lambda>(key, arg). arg_ok (resolve key0) key arg) (entries expr)"
        if "map_of (entries expr) ''object'' = None"
            "entries expr = (key0, v0) # more_keys"
            "s1 = (if \<not> compact s
              then s\<lparr>compact := options_compact (normalize_options options0) \<or>
                     list_all (\<lambda>(key, v). isCompact v) (entries expr)\<rparr>
              else s)"
            "args_map (normalize_options options0) (resolve key0) (entries expr) 0
            (length (entries expr)) (s1\<lparr>printDepth := printDepth s1 + 1\<rparr>) = Inr (outs, s')"
        for key0 v0 more_keys s1 outs s'
        by (rule "1.IH"(4) [OF Raw JExpr refl that(1,2) refl refl refl that(3,4)])
      show ?thesis
        by (rule renders_only_call [OF Raw ol H1 H2 run])
    next
      case (JValue d v)
      have ol: "objlike expr" by (simp add: JValue objlike_def)
      have H1: "printable_object obj" if "map_of (entries expr) ''object'' = Some obj"
          "printObject (normalize_options options0) obj s = Inr (out, s')" for obj out s'
        using that by (rule "1.IH"(7) [OF Raw JValue refl])
      have H2: "list_all (\<lambda>(key, arg). arg_ok (resolve key0) key arg) (entries expr)"
        if "map_of (entries expr) ''object'' = None"
            "entries expr = (key0, v0) # more_keys"
            "s1 = (if \<not> compact s
              then s\<lparr>compact := options_compact (normalize_options options0) \<or>
                     list_all (\<lambda>(key, v). isCompact v) (entries expr)\<rparr>
              else s)"
            "args_map (normalize_options options0) (resolve key0) (entries expr) 0
            (length (entries expr)) (s1\<lparr>printDepth := printDepth s1 + 1\<rparr>) = Inr (outs, s')"
        for key0 v0 more_keys s1 outs s'
        by (rule "1.IH"(6) [OF Raw JValue refl that(1,2) refl refl refl that(3,4)])
      show ?thesis
        by (rule renders_only_call [OF Raw ol H1 H2 run])
    qed (use Raw in \<open>simp_all add: printable.simps\<close>)
  qed
next
  case (2 options toStr array s)
  show ?case
  proof (cases "array = []")
    case True
    then show ?thesis by simp
  next
    case False
    with 2(2) obtain items s2 where
      m: "printArray_map options toStr array 0 (length array) (s\<lparr>printDepth := printDepth s + 1\<rparr>) = Inr (items, s2)"
      by (auto simp add: printArray.simps Let_def split: sum.splits prod.splits)
    from 2(1) [OF False m] show ?thesis .
  qed
next
  case (3 options toStr i len s)
  then show ?case by simp
next
  case (4 options toStr v vs i len s)
  let ?s1 = "s\<lparr>keyPath := keyPath s @ [Idx i]\<rparr>"
  from 4(4) obtain str s2 items where
    a: "(case toStr of ViaExprToString \<Rightarrow> exprToString options v ?s1
          | ViaPrintObject \<Rightarrow> printObject options v ?s1) = Inr (str, s2)"
    and b: "printArray_map options toStr vs (i + 1) len (s2\<lparr>keyPath := butlast (keyPath s2)\<rparr>) = Inr (items, s')"
    by (auto simp add: Let_def split: sum.splits prod.splits)
  have "elem_ok toStr v"
    using a 4(1,2) by (cases toStr) (auto simp: elem_ok_def)
  moreover have "list_all (elem_ok toStr) vs"
    by (rule 4(3) [OF refl a refl refl refl refl b])
  ultimately show ?case by simp
next
  case (5 options obj s)
  note run = \<open>printObject options obj s = Inr (out, s')\<close>
  from run have nn: "obj \<noteq> Undefined" "obj \<noteq> Null"
    by (auto simp add: printObject.simps split: if_splits)
  show ?case
  proof (cases "entries obj = []")
    case True
    with nn show ?thesis by (simp add: printable_object.simps)
  next
    case False
    with run nn obtain items s2 where
      m: "printObject_map options (entries obj) 0 (length (entries obj)) (s\<lparr>printDepth := printDepth s + 1\<rparr>) = Inr (items, s2)"
      by (auto simp add: printObject.simps Let_def split: sum.splits prod.splits)
    from 5(1) [OF _ False m] nn show ?thesis by (simp add: printable_object.simps)
  qed
next
  case (6 options i len s)
  then show ?case by simp
next
  case (7 options key v kvs i len s)
  let ?s1 = "s\<lparr>keyPath := keyPath s @ [Key key]\<rparr>"
  from 7(3) obtain str s2 items where
    a: "exprToString options v ?s1 = Inr (str, s2)"
    and b: "printObject_map options kvs (i + 1) len (s2\<lparr>keyPath := butlast (keyPath s2)\<rparr>) = Inr (items, s')"
    by (auto simp add: Let_def split: sum.splits prod.splits)
  have "printable v"
    using a by (rule 7(1) [OF refl])
  moreover have "list_all (\<lambda>(key, v). printable v) kvs"
    by (rule 7(2) [OF refl a refl refl refl refl b])
  ultimately show ?case by simp
next
  case (8 options fn i len s)
  then show ?case by simp
next
  case (9 options fn key arg kvs i len s)
  let ?s1 = "s\<lparr>keyPath := keyPath s @ [Key key]\<rparr>"
  let ?r = "if fn = Name ''Let'' \<and> key = ''let''
              then (case arg of
                      JArray array \<Rightarrow> printArray options ViaPrintObject array ?s1
                    | _ \<Rightarrow> printObject options arg ?s1)
              else exprToString options arg ?s1"
  note run = \<open>args_map options fn ((key, arg) # kvs) i len s = Inr (outs, s')\<close>
  from run obtain str s2 items where
    a: "?r = Inr (str, s2)"
    and b: "args_map options fn kvs (i + 1) len (s2\<lparr>keyPath := butlast (keyPath s2)\<rparr>) = Inr (items, s')"
    by (simp add: Let_def split: sum.splits prod.splits)
  have "arg_ok fn key arg"
  proof (cases "fn = Name ''Let'' \<and> key = ''let''")
    case False
    with a have "exprToString options arg ?s1 = Inr (str, s2)" by simp
    then have "printable arg" by (rule "9.IH"(11) [OF refl False])
    with False show ?thesis by (auto simp: arg_ok_def)
  next
    case True
    show ?thesis
    proof (cases arg)
      case (JArray xs)
      with True a have "printArray options ViaPrintObject xs ?s1 = Inr (str, s2)" by simp
      then have "list_all (elem_ok ViaPrintObject) xs" by (rule "9.IH"(7) [OF refl True JArray])
      with True JArray show ?thesis by (simp add: arg_ok_def elem_ok_simps)
    qed (use True a "9.IH"(1-6,8-10) [OF refl True] in \<open>simp_all add: arg_ok_def\<close>)
  qed
  moreover have "list_all (\<lambda>(key, arg). arg_ok fn key arg) kvs"
    by (rule "9.IH"(12) [OF refl a refl refl refl refl b])
  ultimately show ?case by simp
qed


text \<open>Claim C2 as stated fails: a call record with no own key, \<^verbatim>\<open>new Expr({})\<close> or the
  plain \<^verbatim>\<open>{}\<close>, throws a \<^verbatim>\<open>TypeError\<close> at \<^verbatim>\<open>keys[0].split\<close>, with or without the option
  \<^verbatim>\<open>compact\<close>, and so does every tree that holds one where the printer reaches it.\<close>

theorem empty_call_record_throws:
  "toString (Expr (JObject [])) OptNone = Inl TypeError
   \<and> toString (JObject []) OptTrue = Inl TypeError
   \<and> toString (Expr (JObject [(''add'', Expr (JArray [JNumber 1, Expr (JObject [])]))])) OptNone
       = Inl TypeError"
  by (simp add: render_defs Expr_def upt_numeral_unfold)

text \<open>Claim C2, amended. For every tree, every options value (the \<^verbatim>\<open>map\<close> hook, when
  there is one, being a function that returns) and every state of the module variables,
  rendering returns a string, in the state it started from, exactly when the tree is
  \<open>printable\<close>: every record the printer reaches as a call has at least one own key, and
  every value it prints as an object literal is neither \<^verbatim>\<open>null\<close> nor \<^verbatim>\<open>undefined\<close>. On
  every other tree it throws a \<^verbatim>\<open>TypeError\<close>.\<close>

theorem renders_iff_printable:
  "((\<exists>out. exprToString options expr s = Inr (out, s)) \<longleftrightarrow> printable expr)
   \<and> ((\<exists>out. toString expr options = Inr out) \<longleftrightarrow> printable expr)
   \<and> (toString expr options = Inl TypeError \<longleftrightarrow> \<not> printable expr)"
proof -
  have a: "(\<exists>out. exprToString options expr s = Inr (out, s)) \<longleftrightarrow> printable expr" for s
    using renders(1) [of expr options s] renders_only(1) [of options expr s _ s] by blast
  have b: "(\<exists>out. toString expr options = Inr out) \<longleftrightarrow> printable expr"
  proof
    assume "\<exists>out. toString expr options = Inr out"
    then obtain out s' where "exprToString options expr initial = Inr (out, s')"
      by (auto simp: toString_def split: sum.splits)
    then show "printable expr" by (rule renders_only(1))
  next
    assume "printable expr"
    with a [of initial] show "\<exists>out. toString expr options = Inr out"
      by (auto simp: toString_def)
  qed
  have c: "toString expr options = Inl TypeError \<longleftrightarrow> \<not> printable expr"
  proof (cases "toString expr options")
    case (Inl err)
    with b show ?thesis by (cases err) simp
  next
    case (Inr out)
    with b show ?thesis by auto
  qed
  from a b c show ?thesis by simp
qed

theorem renders_iff_printable_witness:
  "printable (Expr (JObject [(''add'', Expr (JArray [JNumber 1, JNumber 2]))]))
   \<and> (\<exists>out. toString (Expr (JObject [(''add'', Expr (JArray [JNumber 1, JNumber 2]))])) OptNone
         = Inr out)
   \<and> \<not> printable (Expr (JObject [(''let'', Null), (''in'', JNumber 1)]))
   \<and> toString (Expr (JObject [(''let'', Null), (''in'', JNumber 1)])) OptTrue = Inl TypeError"
proof -
  have p: "printable (Expr (JObject [(''add'', Expr (JArray [JNumber 1, JNumber 2]))]))"
    by (simp add: printable.simps Expr_def)
  have n: "\<not> printable (Expr (JObject [(''let'', Null), (''in'', JNumber 1)]))"
    by (simp add: printable.simps printable_object.simps Expr_def resolve_def specialCases_def
        objectPrototype_def pascalCase_def toUpperCase_def)
  from p n
    renders_iff_printable [of OptNone
      "Expr (JObject [(''add'', Expr (JArray [JNumber 1, JNumber 2]))])" initial]
    renders_iff_printable [of OptTrue
      "Expr (JObject [(''let'', Null), (''in'', JNumber 1)])" initial]
  show ?thesis by simp
qed

section \<open>Name resolution on an inherited key\<close>

text \<open>Claim C3, at the key \<^verbatim>\<open>constructor\<close>. The key is not in the override table, and
  its PascalCase form is \<^verbatim>\<open>Constructor\<close>; the lookup in \<^verbatim>\<open>specialCases\<close> finds the
  function every object inherits under that name, so \<^verbatim>\<open>fn\<close> is that function and the
  call \<^verbatim>\<open>{constructor: [1]}\<close> prints under the function's own text.\<close>

theorem constructor_key_resolves_to_inherited_function:
  "resolve ''constructor'' = Inherited ''constructor''
   \<and> pascalCase ''constructor'' = ''Constructor''
   \<and> toString (JObject [(''constructor'', JArray [JNumber 1])]) OptTrue
       = Inr ''function Object() { [native code] }([1])''"
  by (simp add: render_defs upt_numeral_unfold)

section \<open>The compact option at the root\<close>

text \<open>Claim C4, at an object literal and at a sequence. With the option \<^verbatim>\<open>compact\<close>
  set, the object literal \<^verbatim>\<open>{object: {x: new Expr([1])}}\<close> and the sequence
  \<^verbatim>\<open>new Expr([new Expr([1])])\<close> are printed over several lines with indentation
  markers: only the branch for calls reads \<^verbatim>\<open>options.compact\<close>. The same sequence
  under a call is printed on one line.\<close>

theorem compact_option_ignored_at_array_and_object_roots:
  "toString (JObject [(''object'', JObject [(''x'', JExpr (JArray [JNumber 1]))])]) OptTrue
     = Inr (''{\<newline>'' @ marker @ '' x: [1],\<newline>}'')
   \<and> toString (JExpr (JArray [JExpr (JArray [JNumber 1])])) OptTrue
     = Inr (''[\<newline>'' @ marker @ '' [1],\<newline>]'')
   \<and> toString (JExpr (JObject [(''foo'', JExpr (JArray [JExpr (JArray [JNumber 1])]))])) OptTrue
     = Inr ''Foo([[1]])''"
  by (simp add: render_defs upt_numeral_unfold)

section \<open>Scenario: the call \<^verbatim>\<open>{add: [1, 2]}\<close>\<close>

text \<open>Claim C5, at the tree the query builder makes for \<^verbatim>\<open>Add(1, 2)\<close> (the record and
  its array each wrapped in \<^verbatim>\<open>Expr\<close>) and at the plain record. \<^verbatim>\<open>varArgsFunctions\<close>
  lists \<^verbatim>\<open>Add\<close> but is never read, so the array payload goes through the array branch
  and keeps its brackets: the compact output is \<^verbatim>\<open>Add([1,2])\<close>, not \<^verbatim>\<open>Add(1,2)\<close>, and
  the expanded output has the one indented line \<^verbatim>\<open>[1,2],\<close> between \<^verbatim>\<open>Add(\<close> and
  \<^verbatim>\<open>)\<close>, not one line per number.\<close>

theorem add_call_keeps_brackets:
  "toString (JExpr (JObject [(''add'', JExpr (JArray [JNumber 1, JNumber 2]))])) OptTrue
     = Inr ''Add([1,2])''
   \<and> toString (JExpr (JObject [(''add'', JExpr (JArray [JNumber 1, JNumber 2]))])) OptNone
     = Inr (''Add(\<newline>'' @ marker @ '' [1,2],\<newline>)'')
   \<and> toString (JObject [(''add'', JArray [JNumber 1, JNumber 2])]) OptTrue = Inr ''Add([1,2])''
   \<and> toString (JObject [(''add'', JArray [JNumber 1, JNumber 2])]) OptNone = Inr ''Add([1,2])''
   \<and> ''Add'' \<in> set varArgsFunctions"
  by (simp add: render_defs upt_numeral_unfold varArgsFunctions_def)

section \<open>Scenario: the object literal \<^verbatim>\<open>{object: {x: 1, y: "z"}}\<close>\<close>

definition xy_literal :: jsval where
  "xy_literal = JObject [(''object'', JObject [(''x'', JNumber 1), (''y'', JString ''z'')])]"

text \<open>Claim C9 as stated fails: printed in compact mode, the literal has no space after
  the colons.\<close>

theorem object_literal_no_space_after_colon:
  "exprToString OptTrue xy_literal (initial\<lparr>compact := True\<rparr>)
     \<noteq> Inr (''{x: 1,y: '' @ [CHR 0x22] @ ''z'' @ [CHR 0x22] @ ''}'', initial\<lparr>compact := True\<rparr>)"
  by (simp add: render_defs xy_literal_def upt_numeral_unfold)

text \<open>Claim C9, amended. Printed while compact mode is active (whatever the key path and
  the depth, with and without the compact option), the literal is exactly
  \<^verbatim>\<open>{x:1,y:"z"}\<close>: no space after a colon and none after the comma; so it is as the
  argument of a call printed with the compact option.\<close>

theorem object_literal_compact:
  "exprToString OptTrue xy_literal (s\<lparr>compact := True\<rparr>)
     = Inr (''{x:1,y:'' @ [CHR 0x22] @ ''z'' @ [CHR 0x22] @ ''}'', s\<lparr>compact := True\<rparr>)
   \<and> exprToString OptNone xy_literal (s\<lparr>compact := True\<rparr>)
     = Inr (''{x:1,y:'' @ [CHR 0x22] @ ''z'' @ [CHR 0x22] @ ''}'', s\<lparr>compact := True\<rparr>)
   \<and> toString (JObject [(''foo'', xy_literal)]) OptTrue
     = Inr (''Foo({x:1,y:'' @ [CHR 0x22] @ ''z'' @ [CHR 0x22] @ ''})'')"
  by (simp add: render_defs xy_literal_def upt_numeral_unfold)

section \<open>The reversal set\<close>

lemma reversal_set:
  "shouldReverseArgs fn \<longleftrightarrow> fn \<in> {Name ''Filter'', Name ''Map'', Name ''Foreach''}"
  by (auto simp: shouldReverseArgs_def)

lemma reversal_set_keys:
  "resolve ''filter'' = Name ''Filter''" "resolve ''map'' = Name ''Map''"
  "resolve ''foreach'' = Name ''Foreach''"
  by (simp_all add: render_defs)

text \<open>Claim C6. For every call whose record has the two keys \<open>a\<close>, \<open>b\<close> in this order
  (with values \<open>X\<close>, \<open>Y\<close>) and whose display name is \<^verbatim>\<open>Filter\<close>, \<^verbatim>\<open>Map\<close> or
  \<^verbatim>\<open>Foreach\<close>, each value is printed by \<^verbatim>\<open>exprToString\<close> under its own key, and the
  output is the name and \<^verbatim>\<open>(\<close>, then the text of \<open>Y\<close>, then the text of \<open>X\<close>, then
  \<^verbatim>\<open>)\<close>: the list of arguments is reversed before it is joined. (Each argument keeps the
  separator it got at its place before the reversal.)\<close>

theorem reversal_set_prints_second_key_first:
  assumes raw: "unwrap expr0 = Raw (JObject [(a, X), (b, Y)])"
    and keys: "a \<noteq> ''object''" "b \<noteq> ''object''"
    and name: "resolve a \<in> {Name ''Filter'', Name ''Map'', Name ''Foreach''}"
    and run: "exprToString options0 expr0 s = Inr (out, s')"
  shows "let options = normalize_options options0;
             c = (compact s \<or> options_compact options \<or> (isCompact X \<and> isCompact Y));
             sc = s\<lparr>compact := c, printDepth := printDepth s + 1\<rparr>
         in \<exists>rx ry.
              exprToString options X (sc\<lparr>keyPath := keyPath s @ [Key a]\<rparr>)
                = Inr (rx, sc\<lparr>keyPath := keyPath s @ [Key a]\<rparr>)
            \<and> exprToString options Y (sc\<lparr>keyPath := keyPath s @ [Key b]\<rparr>)
                = Inr (ry, sc\<lparr>keyPath := keyPath s @ [Key b]\<rparr>)
            \<and> out = eol sc (fn_text (resolve a) @ ''('')
                  @ (indent sc (options_map options ry (keyPath s @ [Key b]))
                      @ (if c then [] else eol sc '',''))
                  @ (indent sc (options_map options rx (keyPath s @ [Key a])) @ eol sc '','')
                  @ indent (s\<lparr>compact := c\<rparr>) '')''"
proof -
  let ?options = "normalize_options options0"
  let ?c = "compact s \<or> options_compact ?options \<or> (isCompact X \<and> isCompact Y)"
  let ?sc = "s\<lparr>compact := ?c, printDepth := printDepth s + 1\<rparr>"
  let ?fn = "resolve a"
  have ol: "objlike (JObject [(a, X), (b, Y)])" by (simp add: objlike_def)
  have none: "map_of (entries (JObject [(a, X), (b, Y)])) ''object'' = None"
    using keys by simp
  have ents: "entries (JObject [(a, X), (b, Y)]) = (a, X) # [(b, Y)]" by simp
  have rev: "shouldReverseArgs ?fn"
    using name by (auto simp: shouldReverseArgs_def)
  have notlet: "?fn \<noteq> Name ''Let''"
    using name by auto
  from run obtain args s2 where
    A: "args_map ?options ?fn [(a, X), (b, Y)] 0 (Suc (Suc 0)) ?sc = Inr (args, s2)"
    and out: "out = eol (s2\<lparr>printDepth := printDepth s2 - 1\<rparr>) (fn_text ?fn @ ''('') @
               concat (rev args) @ indent (s2\<lparr>printDepth := printDepth s2 - 1\<rparr>) '')''"
    unfolding exprToString_call [OF raw ol none ents] using rev
    by (auto simp del: args_map.simps split: sum.splits)
  have s2: "s2 = ?sc" using A by (rule restore(6))
  from args_map_Cons [OF A] obtain rx rest where
    x: "arg_text ?options ?fn a X (?sc\<lparr>keyPath := keyPath ?sc @ [Key a]\<rparr>)
          = Inr (rx, ?sc\<lparr>keyPath := keyPath ?sc @ [Key a]\<rparr>)"
    and B: "args_map ?options ?fn [(b, Y)] (0 + 1) (Suc (Suc 0)) ?sc = Inr (rest, ?sc)"
    and args: "args = (indent ?sc (options_map ?options rx (keyPath ?sc @ [Key a])) @
                (if compact ?sc \<and> (0::nat) = Suc (Suc 0) - 1 then [] else eol ?sc '','')) # rest"
    by blast
  from args_map_Cons [OF B] obtain ry rest' where
    y: "arg_text ?options ?fn b Y (?sc\<lparr>keyPath := keyPath ?sc @ [Key b]\<rparr>)
          = Inr (ry, ?sc\<lparr>keyPath := keyPath ?sc @ [Key b]\<rparr>)"
    and C: "args_map ?options ?fn [] (0 + 1 + 1) (Suc (Suc 0)) ?sc = Inr (rest', ?sc)"
    and rest: "rest = (indent ?sc (options_map ?options ry (keyPath ?sc @ [Key b])) @
                (if compact ?sc \<and> (0 + 1::nat) = Suc (Suc 0) - 1 then [] else eol ?sc '','')) # rest'"
    by blast
  from C have rest': "rest' = []" by simp
  have ex: "exprToString ?options X (?sc\<lparr>keyPath := keyPath s @ [Key a]\<rparr>)
                = Inr (rx, ?sc\<lparr>keyPath := keyPath s @ [Key a]\<rparr>)"
    using x notlet by (simp add: arg_text_def)
  have ey: "exprToString ?options Y (?sc\<lparr>keyPath := keyPath s @ [Key b]\<rparr>)
                = Inr (ry, ?sc\<lparr>keyPath := keyPath s @ [Key b]\<rparr>)"
    using y notlet by (simp add: arg_text_def)
  have o: "out = eol ?sc (fn_text ?fn @ ''('')
                  @ (indent ?sc (options_map ?options ry (keyPath s @ [Key b]))
                      @ (if ?c then [] else eol ?sc '',''))
                  @ (indent ?sc (options_map ?options rx (keyPath s @ [Key a])) @ eol ?sc '','')
                  @ indent (s\<lparr>compact := ?c\<rparr>) '')''"
    using out s2 args rest rest' by (simp add: eol_def)
  show ?thesis
    unfolding Let_def by (intro exI [of _ rx] exI [of _ ry] conjI ex ey o)
qed

theorem reversal_set_witness:
  "unwrap (JExpr (JObject [(''filter'', JString ''f''),
                           (''collection'', JExpr (JArray [JNumber 1, JNumber 2]))]))
     = Raw (JObject [(''filter'', JString ''f''),
                     (''collection'', JExpr (JArray [JNumber 1, JNumber 2]))])
   \<and> ''filter'' \<noteq> ''object'' \<and> ''collection'' \<noteq> ''object''
   \<and> resolve ''filter'' \<in> {Name ''Filter'', Name ''Map'', Name ''Foreach''}
   \<and> exprToString OptTrue
        (JExpr (JObject [(''filter'', JString ''f''),
                           (''collection'', JExpr (JArray [JNumber 1, JNumber 2]))])) initial
       = Inr (''Filter([1,2]'' @ [CHR 0x22] @ ''f'' @ [CHR 0x22] @ '',)'', initial)
   \<and> (let options = normalize_options OptTrue;
             c = (compact initial \<or> options_compact options \<or>
                  (isCompact (JString ''f'') \<and> isCompact (JExpr (JArray [JNumber 1, JNumber 2]))));
             sc = initial\<lparr>compact := c, printDepth := printDepth initial + 1\<rparr>
         in \<exists>rx ry.
              exprToString options (JString ''f'') (sc\<lparr>keyPath := keyPath initial @ [Key ''filter'']\<rparr>)
                = Inr (rx, sc\<lparr>keyPath := keyPath initial @ [Key ''filter'']\<rparr>)
            \<and> exprToString options (JExpr (JArray [JNumber 1, JNumber 2]))
                  (sc\<lparr>keyPath := keyPath initial @ [Key ''collection'']\<rparr>)
                = Inr (ry, sc\<lparr>keyPath := keyPath initial @ [Key ''collection'']\<rparr>)
            \<and> ''Filter([1,2]'' @ [CHR 0x22] @ ''f'' @ [CHR 0x22] @ '',)''
                = eol sc (fn_text (resolve ''filter'') @ ''('')
                  @ (indent sc (options_map options ry (keyPath initial @ [Key ''collection'']))
                      @ (if c then [] else eol sc '',''))
                  @ (indent sc (options_map options rx (keyPath initial @ [Key ''filter''])) @ eol sc '','')
                  @ indent (initial\<lparr>compact := c\<rparr>) '')'')
   \<and> unwrap (JExpr (JObject [(''map'', JString ''f''),
                           (''collection'', JExpr (JArray [JNumber 1, JNumber 2]))]))
     = Raw (JObject [(''map'', JString ''f''),
                     (''collection'', JExpr (JArray [JNumber 1, JNumber 2]))])
   \<and> ''map'' \<noteq> ''object'' \<and> ''collection'' \<noteq> ''object''
   \<and> resolve ''map'' \<in> {Name ''Filter'', Name ''Map'', Name ''Foreach''}
   \<and> exprToString OptTrue
        (JExpr (JObject [(''map'', JString ''f''),
                           (''collection'', JExpr (JArray [JNumber 1, JNumber 2]))])) initial
       = Inr (''Map([1,2]'' @ [CHR 0x22] @ ''f'' @ [CHR 0x22] @ '',)'', initial)
   \<and> (let options = normalize_options OptTrue;
             c = (compact initial \<or> options_compact options \<or>
                  (isCompact (JString ''f'') \<and> isCompact (JExpr (JArray [JNumber 1, JNumber 2]))));
             sc = initial\<lparr>compact := c, printDepth := printDepth initial + 1\<rparr>
         in \<exists>rx ry.
              exprToString options (JString ''f'') (sc\<lparr>keyPath := keyPath initial @ [Key ''map'']\<rparr>)
                = Inr (rx, sc\<lparr>keyPath := keyPath initial @ [Key ''map'']\<rparr>)
            \<and> exprToString options (JExpr (JArray [JNumber 1, JNumber 2]))
                  (sc\<lparr>keyPath := keyPath initial @ [Key ''collection'']\<rparr>)
                = Inr (ry, sc\<lparr>keyPath := keyPath initial @ [Key ''collection'']\<rparr>)
            \<and> ''Map([1,2]'' @ [CHR 0x22] @ ''f'' @ [CHR 0x22] @ '',)''
                = eol sc (fn_text (resolve ''map'') @ ''('')
                  @ (indent sc (options_map options ry (keyPath initial @ [Key ''collection'']))
                      @ (if c then [] else eol sc '',''))
                  @ (indent sc (options_map options rx (keyPath initial @ [Key ''map''])) @ eol sc '','')
                  @ indent (initial\<lparr>compact := c\<rparr>) '')'')
   \<and> unwrap (JExpr (JObject [(''foreach'', JString ''f''),
                           (''collection'', JExpr (JArray [JNumber 1, JNumber 2]))]))
     = Raw (JObject [(''foreach'', JString ''f''),
                     (''collection'', JExpr (JArray [JNumber 1, JNumber 2]))])
   \<and> ''foreach'' \<noteq> ''object'' \<and> ''collection'' \<noteq> ''object''
   \<and> resolve ''foreach'' \<in> {Name ''Filter'', Name ''Map'', Name ''Foreach''}
   \<and> exprToString OptTrue
        (JExpr (JObject [(''foreach'', JString ''f''),
                           (''collection'', JExpr (JArray [JNumber 1, JNumber 2]))])) initial
       = Inr (''Foreach([1,2]'' @ [CHR 0x22] @ ''f'' @ [CHR 0x22] @ '',)'', initial)
   \<and> (let options = normalize_options OptTrue;
             c = (compact initial \<or> options_compact options \<or>
                  (isCompact (JString ''f'') \<and> isCompact (JExpr (JArray [JNumber 1, JNumber 2]))));
             sc = initial\<lparr>compact := c, printDepth := printDepth initial + 1\<rparr>
         in \<exists>rx ry.
              exprToString options (JString ''f'') (sc\<lparr>keyPath := keyPath initial @ [Key ''foreach'']\<rparr>)
                = Inr (rx, sc\<lparr>keyPath := keyPath initial @ [Key ''foreach'']\<rparr>)
            \<and> exprToString options (JExpr (JArray [JNumber 1, JNumber 2]))
                  (sc\<lparr>keyPath := keyPath initial @ [Key ''collection'']\<rparr>)
                = Inr (ry, sc\<lparr>keyPath := keyPath initial @ [Key ''collection'']\<rparr>)
            \<and> ''Foreach([1,2]'' @ [CHR 0x22] @ ''f'' @ [CHR 0x22] @ '',)''
                = eol sc (fn_text (resolve ''foreach'') @ ''('')
                  @ (indent sc (options_map options ry (keyPath initial @ [Key ''collection'']))
                      @ (if c then [] else eol sc '',''))
                  @ (indent sc (options_map options rx (keyPath initial @ [Key ''foreach''])) @ eol sc '','')
                  @ indent (initial\<lparr>compact := c\<rparr>) '')'')"
proof -
  have c3: "''collection'' \<noteq> ''object''" by simp
  have fi1: "unwrap (JExpr (JObject [(''filter'', JString ''f''),
                           (''collection'', JExpr (JArray [JNumber 1, JNumber 2]))]))
     = Raw (JObject [(''filter'', JString ''f''),
                     (''collection'', JExpr (JArray [JNumber 1, JNumber 2]))])"
    by simp
  have fi2: "''filter'' \<noteq> ''object''" by simp
  have fi4: "resolve ''filter'' \<in> {Name ''Filter'', Name ''Map'', Name ''Foreach''}"
    by (simp add: render_defs)
  have fi5: "exprToString OptTrue
        (JExpr (JObject [(''filter'', JString ''f''),
                           (''collection'', JExpr (JArray [JNumber 1, JNumber 2]))])) initial
       = Inr (''Filter([1,2]'' @ [CHR 0x22] @ ''f'' @ [CHR 0x22] @ '',)'', initial)"
    by (simp add: render_defs)
  note fi6 = reversal_set_prints_second_key_first [OF fi1 fi2 c3 fi4 fi5]
  have ma1: "unwrap (JExpr (JObject [(''map'', JString ''f''),
                           (''collection'', JExpr (JArray [JNumber 1, JNumber 2]))]))
     = Raw (JObject [(''map'', JString ''f''),
                     (''collection'', JExpr (JArray [JNumber 1, JNumber 2]))])"
    by simp
  have ma2: "''map'' \<noteq> ''object''" by simp
  have ma4: "resolve ''map'' \<in> {Name ''Filter'', Name ''Map'', Name ''Foreach''}"
    by (simp add: render_defs)
  have ma5: "exprToString OptTrue
        (JExpr (JObject [(''map'', JString ''f''),
                           (''collection'', JExpr (JArray [JNumber 1, JNumber 2]))])) initial
       = Inr (''Map([1,2]'' @ [CHR 0x22] @ ''f'' @ [CHR 0x22] @ '',)'', initial)"
    by (simp add: render_defs)
  note ma6 = reversal_set_prints_second_key_first [OF ma1 ma2 c3 ma4 ma5]
  have fo1: "unwrap (JExpr (JObject [(''foreach'', JString ''f''),
                           (''collection'', JExpr (JArray [JNumber 1, JNumber 2]))]))
     = Raw (JObject [(''foreach'', JString ''f''),
                     (''collection'', JExpr (JArray [JNumber 1, JNumber 2]))])"
    by simp
  have fo2: "''foreach'' \<noteq> ''object''" by simp
  have fo4: "resolve ''foreach'' \<in> {Name ''Filter'', Name ''Map'', Name ''Foreach''}"
    by (simp add: render_defs)
  have fo5: "exprToString OptTrue
        (JExpr (JObject [(''foreach'', JString ''f''),
                           (''collection'', JExpr (JArray [JNumber 1, JNumber 2]))])) initial
       = Inr (''Foreach([1,2]'' @ [CHR 0x22] @ ''f'' @ [CHR 0x22] @ '',)'', initial)"
    by (simp add: render_defs)
  note fo6 = reversal_set_prints_second_key_first [OF fo1 fo2 c3 fo4 fo5]
  show ?thesis
    by (intro conjI) (fact c3 fi1 fi2 fi4 fi5 fi6 ma1 ma2 ma4 ma5 ma6 fo1 fo2 fo4 fo5 fo6)+
qed

section \<open>The binding form\<close>




section \<open>The compactness decision\<close>





end
